theory Spec2Isabelle
  imports Main "HOL-Library.Sublist"
begin

section \<open>Strings and characters\<close>

text \<open>
  Strings are lists of characters. The string helpers below model the JavaScript and
  lodash functions the generator calls on ASCII input (code units below 128), where
  \<open>toLowerCase\<close>, \<open>toUpperCase\<close> and lodash's \<open>deburr\<close> act as written here.
\<close>

definition isUpper :: "char \<Rightarrow> bool" where
  "isUpper c = (65 \<le> (of_char c :: nat) \<and> (of_char c :: nat) \<le> 90)"

definition isLower :: "char \<Rightarrow> bool" where
  "isLower c = (97 \<le> (of_char c :: nat) \<and> (of_char c :: nat) \<le> 122)"

definition isDigit :: "char \<Rightarrow> bool" where
  "isDigit c = (48 \<le> (of_char c :: nat) \<and> (of_char c :: nat) \<le> 57)"

definition isAlnum :: "char \<Rightarrow> bool" where
  "isAlnum c = (isUpper c \<or> isLower c \<or> isDigit c)"

definition toLowerChar :: "char \<Rightarrow> char" where
  "toLowerChar c = (if isUpper c then char_of ((of_char c :: nat) + 32) else c)"

definition toUpperChar :: "char \<Rightarrow> char" where
  "toUpperChar c = (if isLower c then char_of ((of_char c :: nat) - 32) else c)"

text \<open>\<open>String.prototype.toLowerCase\<close>.\<close>

definition toLowerCase :: "string \<Rightarrow> string" where
  "toLowerCase s = map toLowerChar s"

text \<open>\<open>String.prototype.endsWith\<close>.\<close>

definition endsWith :: "string \<Rightarrow> string \<Rightarrow> bool" where
  "endsWith s t = suffix t s"

section \<open>lodash: \<open>upperFirst\<close> and \<open>camelCase\<close>\<close>

text \<open>\<open>_.upperFirst\<close>: the first character in upper case, the rest unchanged.\<close>

fun upperFirst :: "string \<Rightarrow> string" where
  "upperFirst [] = []"
| "upperFirst (c # cs) = toUpperChar c # cs"

text \<open>\<open>_.capitalize\<close>: \<open>upperFirst(toString(string).toLowerCase())\<close>.\<close>

definition capitalize :: "string \<Rightarrow> string" where
  "capitalize s = upperFirst (toLowerCase s)"

text \<open>
  \<open>reHasUnicodeWord = /[a-z][A-Z]|[A-Z]{2}[a-z]|[0-9][a-zA-Z]|[a-zA-Z][0-9]|[^a-zA-Z0-9 ]/\<close>,
  tested anywhere in the string.
\<close>

fun hasUnicodeWord :: "string \<Rightarrow> bool" where
  "hasUnicodeWord [] = False"
| "hasUnicodeWord (c # cs) =
     ((isLower c \<and> (case cs of d # _ \<Rightarrow> isUpper d | [] \<Rightarrow> False))
      \<or> (isUpper c \<and> (case cs of d # e # _ \<Rightarrow> isUpper d \<and> isLower e | _ \<Rightarrow> False))
      \<or> (isDigit c \<and> (case cs of d # _ \<Rightarrow> isUpper d \<or> isLower d | [] \<Rightarrow> False))
      \<or> ((isUpper c \<or> isLower c) \<and> (case cs of d # _ \<Rightarrow> isDigit d | [] \<Rightarrow> False))
      \<or> (\<not> isAlnum c \<and> c \<noteq> CHR '' '')
      \<or> hasUnicodeWord cs)"

text \<open>
  \<open>asciiWords\<close>: all matches of \<open>/[^\x00-\x2f\x3a-\x40\x5b-\x60\x7b-\x7f]+/g\<close>, which on
  ASCII input are the maximal runs of letters and digits.
\<close>

fun asciiWordsAcc :: "string \<Rightarrow> string \<Rightarrow> string list" where
  "asciiWordsAcc acc [] = (if acc = [] then [] else [rev acc])"
| "asciiWordsAcc acc (c # cs) =
     (if isAlnum c then asciiWordsAcc (c # acc) cs
      else if acc = [] then asciiWordsAcc [] cs
      else rev acc # asciiWordsAcc [] cs)"

definition asciiWords :: "string \<Rightarrow> string list" where
  "asciiWords s = asciiWordsAcc [] s"

text \<open>
  \<open>unicodeWords\<close> collects all matches of \<open>reUnicodeWord\<close>, an alternation tried in this
  order at each position (on ASCII input with apostrophes removed, where the
  contraction, miscellaneous and emoji classes match nothing and \<open>rsBreak\<close> is any
  character that is not a letter or a digit):
  \<^enum> \<open>[A-Z]?[a-z]+(?=rsBreak|[A-Z]|$)\<close>
  \<^enum> \<open>[A-Z]+(?=rsBreak|[A-Z][a-z]|$)\<close>
  \<^enum> \<open>[A-Z]?[a-z]+\<close>
  \<^enum> \<open>[A-Z]+\<close>
  \<^enum> \<open>\d*(?:1ST|2ND|3RD|(?![123])\dTH)(?=\b|[a-z_])\<close>
  \<^enum> \<open>\d*(?:1st|2nd|3rd|(?![123])\dth)(?=\b|[A-Z_])\<close>
  \<^enum> \<open>\d+\<close>

  Each function returns the length of the match at the start of the string.
\<close>

definition lowerRun :: "string \<Rightarrow> nat" where
  "lowerRun s = length (takeWhile isLower s)"

definition upperRun :: "string \<Rightarrow> nat" where
  "upperRun s = length (takeWhile isUpper s)"

definition digitRun :: "string \<Rightarrow> nat" where
  "digitRun s = length (takeWhile isDigit s)"

text \<open>\<open>[A-Z]?[a-z]+\<close>, greedy.\<close>

definition upperLower :: "string \<Rightarrow> nat option" where
  "upperLower s =
     (case s of
        [] \<Rightarrow> None
      | c # cs \<Rightarrow>
          if isUpper c then (if lowerRun cs = 0 then None else Some (Suc (lowerRun cs)))
          else if lowerRun s = 0 then None else Some (lowerRun s))"

definition matchLowerWord :: "string \<Rightarrow> nat option" where
  "matchLowerWord s =
     (case upperLower s of
        None \<Rightarrow> None
      | Some n \<Rightarrow>
          (case drop n s of
             [] \<Rightarrow> Some n
           | d # _ \<Rightarrow> if \<not> isAlnum d \<or> isUpper d then Some n else None))"

definition matchUpperWord :: "string \<Rightarrow> nat option" where
  "matchUpperWord s =
     (let n = upperRun s in
      if n = 0 then None
      else (case drop n s of
              [] \<Rightarrow> Some n
            | d # _ \<Rightarrow>
                if \<not> isAlnum d then Some n
                else if isLower d \<and> 2 \<le> n then Some (n - 1)
                else None))"

definition matchUpperRun :: "string \<Rightarrow> nat option" where
  "matchUpperRun s = (if upperRun s = 0 then None else Some (upperRun s))"

text \<open>
  The ordinal alternatives: \<open>\d*\<close> backtracks to all digits but the last, which must
  start the suffix; the lookahead \<open>\b\<close> holds after the suffix's letter iff no word
  character \<open>[A-Za-z0-9_]\<close> follows.
\<close>

definition ordSuffix :: "bool \<Rightarrow> string \<Rightarrow> bool" where
  "ordSuffix upper t =
     (let t3 = take 3 t; t1 = take 1 t; l2 = take 2 (drop 1 t) in
      if upper
      then t3 = ''1ST'' \<or> t3 = ''2ND'' \<or> t3 = ''3RD''
           \<or> (t1 \<noteq> ''1'' \<and> t1 \<noteq> ''2'' \<and> t1 \<noteq> ''3'' \<and> l2 = ''TH'')
      else t3 = ''1st'' \<or> t3 = ''2nd'' \<or> t3 = ''3rd''
           \<or> (t1 \<noteq> ''1'' \<and> t1 \<noteq> ''2'' \<and> t1 \<noteq> ''3'' \<and> l2 = ''th''))"

definition matchOrd :: "bool \<Rightarrow> string \<Rightarrow> nat option" where
  "matchOrd upper s =
     (let n = digitRun s in
      if n = 0 then None
      else if \<not> ordSuffix upper (drop (n - 1) s) then None
      else (case drop (n + 2) s of
              [] \<Rightarrow> Some (n + 2)
            | d # _ \<Rightarrow>
                if isDigit d \<or> (if upper then isUpper d else isLower d) then None
                else Some (n + 2)))"

definition matchDigits :: "string \<Rightarrow> nat option" where
  "matchDigits s = (if digitRun s = 0 then None else Some (digitRun s))"

definition orElse :: "'a option \<Rightarrow> 'a option \<Rightarrow> 'a option" where
  "orElse a b = (case a of Some x \<Rightarrow> Some x | None \<Rightarrow> b)"

definition matchUnicodeWord :: "string \<Rightarrow> nat option" where
  "matchUnicodeWord s =
     orElse (matchLowerWord s)
    (orElse (matchUpperWord s)
    (orElse (upperLower s)
    (orElse (matchUpperRun s)
    (orElse (matchOrd True s)
    (orElse (matchOrd False s)
            (matchDigits s))))))"

text \<open>
  The global match: at a match the word is taken and the scan goes on after it,
  otherwise it goes on at the next character. A match is never empty; the scan steps
  by at least one character either way.
\<close>

function unicodeWords :: "string \<Rightarrow> string list" where
  "unicodeWords [] = []"
| "unicodeWords (c # cs) =
     (case matchUnicodeWord (c # cs) of
        None \<Rightarrow> unicodeWords cs
      | Some n \<Rightarrow> take n (c # cs) # unicodeWords (drop n (c # cs)))"
  by pat_completeness auto
termination
  by (relation "measure length")
     (auto simp: matchUnicodeWord_def orElse_def matchLowerWord_def matchUpperWord_def
        upperLower_def matchUpperRun_def matchOrd_def matchDigits_def Let_def
        split: option.splits list.splits if_splits)

text \<open>
  \<open>words(string)\<close> without a pattern:
  \<open>hasUnicodeWord(string) ? unicodeWords(string) : asciiWords(string)\<close>.
\<close>

definition words :: "string \<Rightarrow> string list" where
  "words s = (if hasUnicodeWord s then unicodeWords s else asciiWords s)"

text \<open>
  \<open>_.camelCase = createCompounder((result, word, index) =>
     result + (index ? capitalize(word.toLowerCase()) : word.toLowerCase()))\<close>, where
  \<open>createCompounder\<close> reduces over \<open>words(deburr(string).replace(reApos, ''))\<close> and
  \<open>reApos\<close> matches the apostrophe.
\<close>

fun camelCaseWords :: "string list \<Rightarrow> string" where
  "camelCaseWords [] = []"
| "camelCaseWords (w # ws) = toLowerCase w @ concat (map (\<lambda>v. capitalize (toLowerCase v)) ws)"

definition camelCase :: "string \<Rightarrow> string" where
  "camelCase s = camelCaseWords (words (filter (\<lambda>c. c \<noteq> CHR 0x27) s))"

section \<open>Name helpers of the base generator\<close>

text \<open>\<open>upperFirstCamelCase(value) { return _.upperFirst(_.camelCase(value)); }\<close>\<close>

definition upperFirstCamelCase :: "string \<Rightarrow> string" where
  "upperFirstCamelCase v = upperFirst (camelCase v)"

text \<open>
  \<open>getFrontendAppName(baseName)\<close>:
  \<open>name = _.camelCase(baseName) + (baseName.endsWith('App') ? '' : 'App');
   return name.match(/^\d/) ? 'App' : name;\<close>
\<close>

definition startsWithDigit :: "string \<Rightarrow> bool" where
  "startsWithDigit s = (case s of [] \<Rightarrow> False | c # _ \<Rightarrow> isDigit c)"

definition getFrontendAppName :: "string \<Rightarrow> string" where
  "getFrontendAppName baseName =
     (let name = camelCase baseName @ (if endsWith baseName ''App'' then [] else ''App'')
      in if startsWithDigit name then ''App'' else name)"

section \<open>The icon-import needle of the Angular client\<close>

text \<open>
  \<open>addIcon(iconName)\<close> edits \<open>font-awesome-icons.ts\<close> with a needle callback whose
  \<open>contentToAdd\<close> is
  \<open>(content, { indentPrefix }) => content.replace(
     /(\r?\n)(\s*)\/\/ jhipster-needle-add-icon-import/g,
     `\n${indentPrefix}${iconImport},\n${indentPrefix}// jhipster-needle-add-icon-import`)\<close>
  with \<open>iconImport = `fa${this.generator.upperFirstCamelCase(iconName)}`\<close>. The wrapper
  \<open>createNeedleCallback\<close> that calls it and supplies \<open>indentPrefix\<close> is not part of these
  sources, so \<open>indentPrefix\<close> is a parameter here.
\<close>

definition needle :: string where
  "needle = ''// jhipster-needle-add-icon-import''"

text \<open>
  The class \<open>\s\<close> on code units below 256: tab, line feed, vertical tab, form feed,
  carriage return, space and the no-break space \<open>U+00A0\<close>.
\<close>

definition isSpace :: "char \<Rightarrow> bool" where
  "isSpace c = ((of_char c :: nat) \<in> {9, 10, 11, 12, 13, 32, 160})"

text \<open>\<open>(\r?\n)\<close> at the start of the string: the group and what follows it.\<close>

fun lineBreak :: "string \<Rightarrow> (string \<times> string) option" where
  "lineBreak [] = None"
| "lineBreak (c # cs) =
     (if c = CHR 0x0A then Some ([c], cs)
      else if c = CHR 0x0D then
        (case cs of [] \<Rightarrow> None | d # ds \<Rightarrow> if d = CHR 0x0A then Some ([c, d], ds) else None)
      else None)"

text \<open>
  The regular expression at the start of the string. \<open>\s*\<close> is greedy, and giving
  characters back never helps, since the sentinel starts with \<open>/\<close>, which is not
  whitespace. The result is the two groups and the text after the match.
\<close>

definition matchNeedle :: "string \<Rightarrow> (string \<times> string \<times> string) option" where
  "matchNeedle s =
     (case lineBreak s of
        None \<Rightarrow> None
      | Some (nl, r) \<Rightarrow>
          if prefix needle (dropWhile isSpace r)
          then Some (nl, takeWhile isSpace r, drop (length needle) (dropWhile isSpace r))
          else None)"

text \<open>
  \<open>GetSubstitution\<close> for a string replacement with two capture groups and no named
  groups: \<open>$$\<close>, \<open>$&\<close>, \<open>$`\<close>, \<open>$'\<close>, \<open>$1\<close>, \<open>$2\<close>, \<open>$01\<close>, \<open>$02\<close>; a two-digit
  reference above the group count is read as a one-digit reference followed by a digit,
  and any other \<open>$\<close> stands for itself.
\<close>

definition digitValue :: "char \<Rightarrow> nat" where
  "digitValue c = (of_char c :: nat) - 48"

definition capture :: "string list \<Rightarrow> nat \<Rightarrow> string option" where
  "capture caps i = (if 1 \<le> i \<and> i \<le> length caps then Some (caps ! (i - 1)) else None)"

fun getSubstitution :: "string \<Rightarrow> string \<Rightarrow> string \<Rightarrow> string list \<Rightarrow> string \<Rightarrow> string" where
  "getSubstitution matched preceding following caps [] = []"
| "getSubstitution matched preceding following caps [c] = [c]"
| "getSubstitution matched preceding following caps (c # d # t) =
     (if c \<noteq> CHR ''$'' then c # getSubstitution matched preceding following caps (d # t)
      else if d = CHR ''$'' then CHR ''$'' # getSubstitution matched preceding following caps t
      else if d = CHR ''&'' then matched @ getSubstitution matched preceding following caps t
      else if d = CHR 0x60 then preceding @ getSubstitution matched preceding following caps t
      else if d = CHR 0x27 then following @ getSubstitution matched preceding following caps t
      else if isDigit d then
        (case t of
           [] \<Rightarrow> (case capture caps (digitValue d) of Some g \<Rightarrow> g | None \<Rightarrow> [c, d])
         | e # u \<Rightarrow>
             if isDigit e \<and> 10 * digitValue d + digitValue e \<le> length caps then
               (case capture caps (10 * digitValue d + digitValue e) of
                  Some g \<Rightarrow> g @ getSubstitution matched preceding following caps u
                | None \<Rightarrow> c # d # e # getSubstitution matched preceding following caps u)
             else
               (case capture caps (digitValue d) of
                  Some g \<Rightarrow> g @ getSubstitution matched preceding following caps (e # u)
                | None \<Rightarrow> c # d # getSubstitution matched preceding following caps (e # u)))
      else c # getSubstitution matched preceding following caps (d # t))"

text \<open>
  \<open>String.prototype.replace\<close> with the global regular expression: scanning from the
  left, each match is replaced and the scan goes on following it; \<open>preceding\<close> is the text
  already scanned.
\<close>

function replaceNeedles :: "string \<Rightarrow> string \<Rightarrow> string \<Rightarrow> string" where
  "replaceNeedles replacement preceding [] = []"
| "replaceNeedles replacement preceding (c # cs) =
     (case matchNeedle (c # cs) of
        None \<Rightarrow> c # replaceNeedles replacement (preceding @ [c]) cs
      | Some (g1, g2, following) \<Rightarrow>
          getSubstitution (g1 @ g2 @ needle) preceding following [g1, g2] replacement
          @ replaceNeedles replacement (preceding @ g1 @ g2 @ needle) following)"
  by pat_completeness auto
termination
  apply (relation "measure (\<lambda>(r, b, s). length s)")
    apply simp
   apply simp
  subgoal for replacement preceding c cs x2 g1 y g2 following
    using length_dropWhile_le [of isSpace cs] length_dropWhile_le [of isSpace "tl cs"]
    by (auto simp: matchNeedle_def split: option.splits if_splits list.splits)
  done

definition iconImportLine :: "string \<Rightarrow> string \<Rightarrow> string" where
  "iconImportLine indentPrefix iconImport =
     [CHR 0x0A] @ indentPrefix @ iconImport @ '','' @ [CHR 0x0A] @ indentPrefix @ needle"

definition addIconContent :: "string \<Rightarrow> string \<Rightarrow> string \<Rightarrow> string" where
  "addIconContent iconImport indentPrefix content =
     replaceNeedles (iconImportLine indentPrefix iconImport) [] content"

definition iconImport :: "string \<Rightarrow> string" where
  "iconImport iconName = ''fa'' @ upperFirstCamelCase iconName"

section \<open>JavaScript values, errors and the generator's environment\<close>

datatype error =
    AssertionError string
  | Error string
  | TypeError string

text \<open>
  The render context: the fields \<open>writeFiles\<close> itself reads. A missing field is \<open>None\<close>.
\<close>

record renderContext =
  entityClass :: "string option"
  baseName :: "string option"
  fakerSeed :: "string option"

text \<open>
  A value of a specification field that may be a constant or a callback on the context.
  \<open>JOther\<close> is a value of any other type (a number, an object, \<open>null\<close>) with its truthiness.
\<close>

datatype jsval =
    JUndefined
  | JBool bool
  | JStr string
  | JFun "renderContext \<Rightarrow> jsval"
  | JOther bool

fun truthy :: "jsval \<Rightarrow> bool" where
  "truthy JUndefined = False"
| "truthy (JBool b) = b"
| "truthy (JStr s) = (s \<noteq> [])"
| "truthy (JFun f) = True"
| "truthy (JOther t) = t"

text \<open>\<open>a || b\<close>.\<close>

definition orJs :: "jsval \<Rightarrow> jsval \<Rightarrow> jsval" where
  "orJs a b = (if truthy a then a else b)"

text \<open>\<open>v ?? d\<close> on a field that may be missing.\<close>

definition orDefault :: "'a \<Rightarrow> 'a option \<Rightarrow> 'a" where
  "orDefault d v = (case v of None \<Rightarrow> d | Some x \<Rightarrow> x)"

definition truthyString :: "string option \<Rightarrow> bool" where
  "truthyString v = (case v of None \<Rightarrow> False | Some s \<Rightarrow> s \<noteq> [])"

datatype registry = ConfigOptions | SharedApplication

text \<open>\<open>rootTemplatesAbsolutePath\<close>: a list of roots, one absolute root, or undefined.\<close>

datatype templateRoots = RootsArray "string list" | RootsString string | RootsUndefined

text \<open>
  What the method does to its surroundings, in program order: log lines, existence tests on
  the template folders (\<open>fs.existsSync\<close>) and on the in-memory destination file system
  (\<open>this.fs.exists\<close>), the calls that write a destination file, the reseeding of a shared
  entity, and the edit of a written file with a chain of transforms.
\<close>

datatype 'tf event =
    LoggerWarn string
  | LoggerDebug string
  | ExistsSync string
  | FsExists string
  | CopyTemplateAsync string jsval
  | RenderTemplateAsync string jsval renderContext "(string \<times> string) list" templateRoots
  | RenderTemplateSync string jsval renderContext "(string \<times> string) list" templateRoots
  | ResetFakerSeed registry string string
  | EditFile jsval "'tf list"

text \<open>
  The generator: the fields and the inherited methods \<open>writeFiles\<close> uses. \<open>templatePath\<close>,
  \<open>destinationPath\<close> (yeoman) and \<open>path.join\<close> (Node) are taken as they come; so are the
  two file systems. The shared entities are named by their keys.
\<close>

record generator =
  jhipsterTemplatesFolders :: "string list option"
  templatePath :: "string list \<Rightarrow> string"
  destinationPath :: "string list \<Rightarrow> string"
  pathJoin :: "string list \<Rightarrow> string"
  existsSync :: "string \<Rightarrow> bool"
  fsExists :: "string \<Rightarrow> bool"
  configSharedEntities :: "string list option"
  applicationSharedEntities :: "string list option"
  thisContext :: renderContext

section \<open>Node's \<open>path\<close> (POSIX) and small string helpers\<close>

text \<open>The last segment of a path, trailing slashes ignored: \<open>path.basename(p)\<close>.\<close>

definition basename :: "string \<Rightarrow> string" where
  "basename p =
     rev (takeWhile (\<lambda>c. c \<noteq> CHR ''/'') (dropWhile (\<lambda>c. c = CHR ''/'') (rev p)))"

text \<open>
  \<open>path.extname(p)\<close>: from the last dot of the last segment to its end; empty when there
  is no dot, when the segment starts with its only dot, and for the segment \<open>..\<close>.
\<close>

definition extname :: "string \<Rightarrow> string" where
  "extname p =
     (let seg = basename p;
          ext = CHR ''.'' # rev (takeWhile (\<lambda>c. c \<noteq> CHR ''.'') (rev seg));
          stem = take (length seg - length ext) seg
      in if CHR ''.'' \<notin> set seg then []
         else if stem = [] then []
         else if seg = ''..'' then []
         else ext)"

definition isAbsolute :: "string \<Rightarrow> bool" where
  "isAbsolute p = (case p of [] \<Rightarrow> False | c # _ \<Rightarrow> c = CHR ''/'')"

text \<open>\<open>s.replace(pat, '')\<close> with a string pattern: the first occurrence is removed.\<close>

fun removeFirst :: "string \<Rightarrow> string \<Rightarrow> string" where
  "removeFirst pat [] = []"
| "removeFirst pat (c # cs) =
     (if prefix pat (c # cs) then drop (length pat) (c # cs) else c # removeFirst pat cs)"

text \<open>\<open>const normalizeEjs = file => file.replace('.ejs', '');\<close>\<close>

definition normalizeEjs :: "string \<Rightarrow> string" where
  "normalizeEjs file = removeFirst ''.ejs'' file"

text \<open>An array converted to a string: its elements joined with commas.\<close>

fun joinComma :: "string list \<Rightarrow> string" where
  "joinComma [] = []"
| "joinComma [x] = x"
| "joinComma (x # y # ys) = x @ '','' @ joinComma (y # ys)"

fun showNat :: "nat \<Rightarrow> string" where
  "showNat n =
     (if n < 10 then [char_of (48 + n)] else showNat (n div 10) @ [char_of (48 + n mod 10)])"

text \<open>
  \<open>JSON.stringify(strings, null, 2)\<close> for an array of ASCII strings: quotes, backslashes
  and control characters escaped, one element per line, indented by two spaces.
\<close>

definition hexDigit :: "nat \<Rightarrow> char" where
  "hexDigit n = (if n < 10 then char_of (48 + n) else char_of (87 + n))"

definition jsonEscape :: "char \<Rightarrow> string" where
  "jsonEscape c =
     (if c = CHR 0x22 then [CHR 0x5C, CHR 0x22]
      else if c = CHR 0x5C then [CHR 0x5C, CHR 0x5C]
      else if c = CHR 0x08 then [CHR 0x5C, CHR ''b'']
      else if c = CHR 0x0C then [CHR 0x5C, CHR ''f'']
      else if c = CHR 0x0A then [CHR 0x5C, CHR ''n'']
      else if c = CHR 0x0D then [CHR 0x5C, CHR ''r'']
      else if c = CHR 0x09 then [CHR 0x5C, CHR ''t'']
      else if (of_char c :: nat) < 32
        then [CHR 0x5C, CHR ''u'', CHR ''0'', CHR ''0'',
              hexDigit ((of_char c :: nat) div 16), hexDigit ((of_char c :: nat) mod 16)]
      else [c])"

definition jsonString :: "string \<Rightarrow> string" where
  "jsonString s = [CHR 0x22] @ concat (map jsonEscape s) @ [CHR 0x22]"

fun jsonLines :: "string list \<Rightarrow> string" where
  "jsonLines [] = []"
| "jsonLines [x] = ''  '' @ jsonString x @ [CHR 0x0A]"
| "jsonLines (x # y # ys) = ''  '' @ jsonString x @ '','' @ [CHR 0x0A] @ jsonLines (y # ys)"

definition jsonStringify :: "string list \<Rightarrow> string" where
  "jsonStringify xs = (if xs = [] then ''[]'' else ''['' @ [CHR 0x0A] @ jsonLines xs @ '']'')"

section \<open>\<open>writeFiles\<close>: the request\<close>

text \<open>
  A \<open>transform\<close> field of a block or a file: missing, a boolean (the template switch), an
  array of edit callbacks, or anything else.
\<close>

datatype 'tf transformSpec =
    TransformUndefined
  | TransformBoolean bool
  | TransformArray "'tf list"
  | TransformOther

text \<open>A file of a block: a bare name or an object.\<close>

record 'tf fileObject =
  fsSourceFile :: jsval
  fsFile :: jsval
  fsDestinationFile :: jsval
  fsRenameTo :: jsval
  fsOverride :: jsval
  fsTransform :: "'tf transformSpec"
  fsNoEjs :: "bool option"
  fsBinary :: bool
  fsMethod :: "string option"
  fsOptions :: "(string \<times> string) list option"

datatype 'tf fileSpec = FileName string | FileObject "'tf fileObject"

record 'tf block =
  blockPathValue :: jsval
  blockFrom :: jsval
  blockTo :: jsval
  blockCondition :: jsval
  blockTransform :: "'tf transformSpec"
  blockRenameTo :: "(renderContext \<Rightarrow> string \<Rightarrow> string) option"
  blockTemplates :: "'tf fileSpec list option"

text \<open>
  A value of the \<open>sections\<close> object: an array of blocks, or an object such as the common
  specification under the key \<open>_\<close>, of which only \<open>transform\<close> is read.
\<close>

datatype 'tf sectionValue =
    SectionBlocks "'tf block list"
  | SectionObject "'tf list option"

text \<open>The argument of \<open>renderTemplate\<close>; a \<open>templates\<close> entry is a name or such an object.\<close>

record 'tf template =
  sourceFile :: string
  destinationFile :: jsval
  templateOptions :: "(string \<times> string) list option"
  noEjs :: "bool option"
  transform :: "'tf list option"
  binary :: bool

datatype 'tf templateSpec = TemplateName string | TemplateObject "'tf template"

text \<open>A key of the options object: absent, present with the value undefined, or present.\<close>

datatype 'a optionKey = Absent | Undef | Value 'a

datatype rootTemplatesPath = RootPathUndefined | RootPathString string | RootPathArray "string list"

record 'tf writeFileOptions =
  sections :: "(string \<times> 'tf sectionValue) list optionKey"
  blocks :: "'tf block list optionKey"
  templates :: "'tf templateSpec list optionKey"
  rootTemplatesPath :: rootTemplatesPath
  optContext :: "renderContext option"
  methodTransform :: "'tf list"

section \<open>\<open>writeFiles\<close>: the local helpers\<close>

text \<open>
  \<open>resolveCallback(val, fallback)\<close>; the callback branch is \<open>val.call(this, context) || false\<close>.
\<close>

definition callFunction :: "renderContext \<Rightarrow> (renderContext \<Rightarrow> jsval) \<Rightarrow> jsval" where
  "callFunction ctx f = orJs (f ctx) (JBool False)"

fun resolveCallback :: "renderContext \<Rightarrow> jsval \<Rightarrow> jsval \<Rightarrow> error + jsval" where
  "resolveCallback ctx JUndefined (JFun f) = Inr (callFunction ctx f)"
| "resolveCallback ctx JUndefined fallback = Inr fallback"
| "resolveCallback ctx (JBool b) fallback = Inr (JBool b)"
| "resolveCallback ctx (JStr s) fallback = Inr (JStr s)"
| "resolveCallback ctx (JFun f) fallback = Inr (callFunction ctx f)"
| "resolveCallback ctx (JOther t) fallback = Inl (Error ''Type not supported'')"

text \<open>A path argument must be a string: Node throws a \<open>TypeError\<close> otherwise.\<close>

definition asPath :: "jsval \<Rightarrow> error + string" where
  "asPath v = (case v of JStr s \<Rightarrow> Inr s
                 | _ \<Rightarrow> Inl (TypeError ''The path argument must be of type string''))"

text \<open>The options' \<open>rootTemplatesPath\<close> turned into \<open>rootTemplatesAbsolutePath\<close>.\<close>

definition rootTemplatesAbsolutePath :: "generator \<Rightarrow> rootTemplatesPath \<Rightarrow> error + templateRoots" where
  "rootTemplatesAbsolutePath gen rtp =
     (let folders = (case jhipsterTemplatesFolders gen of None \<Rightarrow> RootsUndefined
                     | Some fs \<Rightarrow> RootsArray fs);
          relative = (\<lambda>rels. case jhipsterTemplatesFolders gen of
                        None \<Rightarrow> Inl (TypeError ''Cannot read properties of undefined'')
                      | Some fs \<Rightarrow>
                          Inr (RootsArray (concat (map (\<lambda>templateFolder.
                                 map (\<lambda>relativePath. pathJoin gen [templateFolder, relativePath]) rels) fs))))
      in case rtp of
           RootPathUndefined \<Rightarrow> Inr folders
         | RootPathString p \<Rightarrow>
             if p = [] then Inr folders
             else if isAbsolute p then Inr (RootsString p)
             else relative [p]
         | RootPathArray rels \<Rightarrow> relative rels)"

section \<open>\<open>writeFiles\<close>: rendering one template\<close>

definition binaryExtensions :: "string list" where
  "binaryExtensions = [''.png'', ''.jpg'', ''.gif'', ''.svg'', ''.ico'']"

definition isBinary :: "'tf template \<Rightarrow> bool" where
  "isBinary t = (binary t \<or> extname (sourceFile t) \<in> set binaryExtensions)"

definition appendEjs :: "'tf template \<Rightarrow> bool" where
  "appendEjs t =
     (case noEjs t of
        None \<Rightarrow> \<not> isBinary t \<and> extname (sourceFile t) \<noteq> ''.ejs''
      | Some n \<Rightarrow> \<not> n)"

definition ejsFile :: "'tf template \<Rightarrow> bool" where
  "ejsFile t = (appendEjs t \<or> extname (sourceFile t) = ''.ejs'')"

text \<open>
  \<open>targetFile\<close>: a callback is resolved; a string loses its first \<open>.ejs\<close> when the suffix is
  appended to the source; calling \<open>replace\<close> on anything else is a \<open>TypeError\<close>.
\<close>

definition targetFile :: "renderContext \<Rightarrow> 'tf template \<Rightarrow> error + jsval" where
  "targetFile ctx t =
     (case destinationFile t of
        JFun f \<Rightarrow> Inr (callFunction ctx f)
      | JStr d \<Rightarrow> Inr (JStr (if appendEjs t then normalizeEjs d else d))
      | v \<Rightarrow> if appendEjs t then Inl (TypeError ''file.replace is not a function'') else Inr v)"

text \<open>
  The lookup in the template roots. With an array of roots: the candidates in the order of
  the roots, those that exist (tested with the \<open>.ejs\<close> suffix when it is appended), a log
  line when more than one exists, the first one taken, and an error when there is none.
\<close>

definition existingTemplates :: "generator \<Rightarrow> string list \<Rightarrow> bool \<Rightarrow> string \<Rightarrow> string list" where
  "existingTemplates gen roots app src =
     filter (\<lambda>templateFile. existsSync gen (if app then templateFile @ ''.ejs'' else templateFile))
       (map (\<lambda>rootPath. templatePath gen [rootPath, src]) roots)"

definition moreThanOneMessage :: "string \<Rightarrow> string list \<Rightarrow> string" where
  "moreThanOneMessage src existing =
     ''Multiples templates were found for file '' @ src @ '', using the first'' @ [CHR 0x0A]
     @ ''templates: '' @ jsonStringify existing"

definition lookupLog :: "string \<Rightarrow> string list \<Rightarrow> 'tf event list" where
  "lookupLog src existing =
     (if length existing > 1 then
        (if length existing > 2
         then [LoggerWarn (''Possible blueprint conflict detected: '' @ moreThanOneMessage src existing)]
         else [LoggerDebug (moreThanOneMessage src existing)])
      else [])"

definition sourceFileFrom :: "generator \<Rightarrow> templateRoots \<Rightarrow> 'tf template \<Rightarrow> 'tf event list \<times> (error + string)" where
  "sourceFileFrom gen roots t =
     (let src = sourceFile t; app = appendEjs t;
          suffix = (\<lambda>f. if app then f @ ''.ejs'' else f)
      in case roots of
           RootsArray rs \<Rightarrow>
             (let existing = existingTemplates gen rs app src;
                  tests = map (\<lambda>rootPath. ExistsSync (suffix (templatePath gen [rootPath, src]))) rs
              in (tests @ lookupLog src existing,
                  case existing of
                    [] \<Rightarrow> Inl (Error (''Template file '' @ src @ '' was not found at '' @ joinComma rs))
                  | first # _ \<Rightarrow> Inr (suffix first)))
         | RootsString r \<Rightarrow> ([], Inr (suffix (templatePath gen [r, src])))
         | RootsUndefined \<Rightarrow> ([], Inr (suffix (templatePath gen [src]))))"

text \<open>
  The entity branch of an expanded template: with a truthy \<open>context.entityClass\<close> the
  context needs a \<open>baseName\<close>; the seed is
  \<open>`${context.entityClass}-${basename}${context.fakerSeed ?? ''}`\<close> and every entity of
  \<open>this.configOptions?.sharedEntities\<close>, then of
  \<open>this.sharedData.getApplication()?.sharedEntities\<close>, is reseeded with it; the render
  is then not asynchronous. The result is the reseedings and \<open>useAsync\<close>.
\<close>

definition fakerSeedOf :: "renderContext \<Rightarrow> string \<Rightarrow> string" where
  "fakerSeedOf ctx from =
     orDefault [] (entityClass ctx) @ ''-'' @ basename from @ orDefault [] (fakerSeed ctx)"

definition entitySeeding :: "generator \<Rightarrow> renderContext \<Rightarrow> string \<Rightarrow> 'tf event list \<times> (error + bool)" where
  "entitySeeding gen ctx from =
     (if truthyString (entityClass ctx) then
        (if \<not> truthyString (baseName ctx)
         then ([], Inl (Error ''baseName is require at templates context''))
         else (map (\<lambda>entity. ResetFakerSeed ConfigOptions entity (fakerSeedOf ctx from))
                 (orDefault [] (configSharedEntities gen))
               @ map (\<lambda>entity. ResetFakerSeed SharedApplication entity (fakerSeedOf ctx from))
                 (orDefault [] (applicationSharedEntities gen)),
               Inr False))
      else ([], Inr True))"

text \<open>
  \<open>renderOptions = { ...(options?.renderOptions ?? {}), root: rootTemplatesAbsolutePath,
  cache: false }\<close>: the caller's options without \<open>root\<close> and \<open>cache\<close>, and the roots.
\<close>

definition userRenderOptions :: "'tf template \<Rightarrow> (string \<times> string) list" where
  "userRenderOptions t =
     filter (\<lambda>(k, v). k \<noteq> ''root'' \<and> k \<noteq> ''cache'') (orDefault [] (templateOptions t))"

text \<open>\<open>if (!isBinary && transform && transform.length) this.editFile(targetFile, ...transform)\<close>\<close>

definition editEvents :: "'tf template \<Rightarrow> jsval \<Rightarrow> 'tf event list" where
  "editEvents t target =
     (case transform t of
        None \<Rightarrow> []
      | Some tfs \<Rightarrow> if \<not> isBinary t \<and> tfs \<noteq> [] then [EditFile target tfs] else [])"

definition renderTemplate ::
  "generator \<Rightarrow> renderContext \<Rightarrow> templateRoots \<Rightarrow> 'tf template \<Rightarrow> 'tf event list \<times> (error + jsval)" where
  "renderTemplate gen ctx roots t =
     (case targetFile ctx t of
        Inl e \<Rightarrow> ([], Inl e)
      | Inr target \<Rightarrow>
          (case sourceFileFrom gen roots t of
             (found, Inl e) \<Rightarrow> (found, Inl e)
           | (found, Inr from) \<Rightarrow>
               if \<not> ejsFile t
               then (found @ [CopyTemplateAsync from target] @ editEvents t target, Inr target)
               else (case entitySeeding gen ctx from of
                       (seeded, Inl e) \<Rightarrow> (found @ seeded, Inl e)
                     | (seeded, Inr useAsync) \<Rightarrow>
                         (found @ seeded
                          @ [if useAsync
                             then RenderTemplateAsync from target ctx (userRenderOptions t) roots
                             else RenderTemplateSync from target ctx (userRenderOptions t) roots]
                          @ editEvents t target,
                          Inr target))))"

section \<open>\<open>writeFiles\<close>: from blocks to templates\<close>

fun isUndefined :: "jsval \<Rightarrow> bool" where
  "isUndefined JUndefined = True"
| "isUndefined v = False"

definition bindE :: "error + 'a \<Rightarrow> ('a \<Rightarrow> error + 'b) \<Rightarrow> error + 'b" where
  "bindE r f = (case r of Inl e \<Rightarrow> Inl e | Inr x \<Rightarrow> f x)"

text \<open>
  The transforms of a file before its own: \<open>[...methodTransform, ...sectionTransform]\<close>
  when the block's \<open>transform\<close> is a boolean, which then sets \<open>noEjs = !blockTransform\<close>,
  and \<open>[...methodTransform, ...sectionTransform, ...blockTransform]\<close> otherwise.
\<close>

definition derivedTransform :: "'tf list \<Rightarrow> 'tf list \<Rightarrow> 'tf transformSpec \<Rightarrow> error + 'tf list" where
  "derivedTransform m s bt =
     (case bt of
        TransformBoolean b \<Rightarrow> Inr (m @ s)
      | TransformUndefined \<Rightarrow> Inr (m @ s @ [])
      | TransformArray tfs \<Rightarrow> Inr (m @ s @ tfs)
      | TransformOther \<Rightarrow> Inl (TypeError ''blockTransform is not iterable''))"

definition blockNoEjs :: "'tf transformSpec \<Rightarrow> bool option \<Rightarrow> bool option" where
  "blockNoEjs bt n = (case bt of TransformBoolean b \<Rightarrow> Some (\<not> b) | _ \<Rightarrow> n)"

text \<open>A file given by its name.\<close>

definition planFileName ::
  "generator \<Rightarrow> renderContext \<Rightarrow> 'tf list \<Rightarrow> 'tf block \<Rightarrow> jsval \<Rightarrow> jsval \<Rightarrow> string
   \<Rightarrow> error + 'tf template" where
  "planFileName gen ctx derived blk bPath bTo name =
     bindE (asPath bPath) (\<lambda>bp.
     bindE (case blockRenameTo blk of
              Some r \<Rightarrow> Inr (destinationPath gen [r ctx name])
            | None \<Rightarrow> bindE (asPath bTo) (\<lambda>bt. Inr (destinationPath gen [bt, name]))) (\<lambda>dest.
     Inr \<lparr> sourceFile = pathJoin gen [bp, name], destinationFile = JStr dest,
           templateOptions = None, noEjs = blockNoEjs (blockTransform blk) None,
           transform = Some derived, binary = False \<rparr>))"

text \<open>
  A file given by an object: its \<open>transform\<close> is a boolean (\<open>noEjs = !fileTransform\<close>), an
  array (appended to the derived transforms) or an error.
\<close>

definition fileNoEjs :: "'tf transformSpec \<Rightarrow> bool option \<Rightarrow> bool option" where
  "fileNoEjs ft n = (case ft of TransformBoolean b \<Rightarrow> Some (\<not> b) | _ \<Rightarrow> n)"

definition fileDerivedTransform :: "'tf list \<Rightarrow> 'tf transformSpec \<Rightarrow> error + 'tf list" where
  "fileDerivedTransform derived ft =
     (case ft of
        TransformBoolean b \<Rightarrow> Inr derived
      | TransformUndefined \<Rightarrow> Inr (derived @ [])
      | TransformArray tfs \<Rightarrow> Inr (derived @ tfs)
      | TransformOther \<Rightarrow> Inl (Error ''Transform value is not supported''))"

text \<open>\<open>if (noEjs === undefined) { if (method === 'copy') noEjs = true; }\<close>\<close>

definition methodNoEjs :: "string option \<Rightarrow> bool option \<Rightarrow> bool option" where
  "methodNoEjs method n = (if n = None \<and> method = Some ''copy'' then Some True else n)"

text \<open>
  The source and the destination of a file object and its resolved \<open>override\<close>, in the
  order in which the method computes them (and may fail).
\<close>

definition resolveFileObject ::
  "generator \<Rightarrow> renderContext \<Rightarrow> 'tf list \<Rightarrow> 'tf block \<Rightarrow> jsval \<Rightarrow> jsval \<Rightarrow> 'tf fileObject
   \<Rightarrow> error + (jsval \<times> string \<times> 'tf template)" where
  "resolveFileObject gen ctx derived blk bPath bTo fo =
     bindE (fileDerivedTransform derived (fsTransform fo)) (\<lambda>derived'.
     bindE (resolveCallback ctx (orJs (fsSourceFile fo) (fsFile fo)) JUndefined) (\<lambda>normalizedFile.
     bindE (asPath bPath) (\<lambda>bp.
     bindE (asPath normalizedFile) (\<lambda>nf.
     bindE (resolveCallback ctx (orJs (fsDestinationFile fo) (fsRenameTo fo)) normalizedFile) (\<lambda>d.
     bindE (asPath d) (\<lambda>dp.
     bindE (asPath bTo) (\<lambda>bt.
     bindE (resolveCallback ctx (fsOverride fo) JUndefined) (\<lambda>override.
     Inr (override, destinationPath gen [bt, pathJoin gen [dp]],
          \<lparr> sourceFile = pathJoin gen [bp, nf],
            destinationFile = JStr (destinationPath gen [bt, pathJoin gen [dp]]),
            templateOptions = fsOptions fo,
            noEjs = methodNoEjs (fsMethod fo)
                      (fileNoEjs (fsTransform fo) (blockNoEjs (blockTransform blk) (fsNoEjs fo))),
            transform = Some derived',
            binary = fsBinary fo \<rparr>)))))))))"

text \<open>
  \<open>if (override !== undefined && !override && this.fs.exists(destinationFile))\<close>: the file
  is dropped (\<open>None\<close>) with a debug line. The destination is only tested when the
  \<open>override\<close> is defined and falsy.
\<close>

definition planFileObject ::
  "generator \<Rightarrow> renderContext \<Rightarrow> 'tf list \<Rightarrow> 'tf block \<Rightarrow> jsval \<Rightarrow> jsval \<Rightarrow> 'tf fileObject
   \<Rightarrow> 'tf event list \<times> (error + 'tf template option)" where
  "planFileObject gen ctx derived blk bPath bTo fo =
     (case resolveFileObject gen ctx derived blk bPath bTo fo of
        Inl e \<Rightarrow> ([], Inl e)
      | Inr (override, dest, t) \<Rightarrow>
          if \<not> isUndefined override \<and> \<not> truthy override
          then (if fsExists gen dest
                then ([FsExists dest, LoggerDebug (''skipping file '' @ dest)], Inr None)
                else ([FsExists dest], Inr (Some t)))
          else ([], Inr (Some t)))"

text \<open>One file of a block; the derived transforms are built first, for every kind of file.\<close>

definition planFile ::
  "generator \<Rightarrow> renderContext \<Rightarrow> 'tf list \<Rightarrow> 'tf list \<Rightarrow> 'tf block \<Rightarrow> jsval \<Rightarrow> jsval \<Rightarrow> 'tf fileSpec
   \<Rightarrow> 'tf event list \<times> (error + 'tf template option)" where
  "planFile gen ctx m s blk bPath bTo fileSpec =
     (case derivedTransform m s (blockTransform blk) of
        Inl e \<Rightarrow> ([], Inl e)
      | Inr derived \<Rightarrow>
          (case fileSpec of
             FileName name \<Rightarrow>
               (case planFileName gen ctx derived blk bPath bTo name of
                  Inl e \<Rightarrow> ([], Inl e)
                | Inr t \<Rightarrow> ([], Inr (Some t)))
           | FileObject fo \<Rightarrow> planFileObject gen ctx derived blk bPath bTo fo))"

text \<open>
  \<open>Array.prototype.map\<close> with a callback that may throw: the elements in order, stopping
  at the first error, with the events so far.
\<close>

fun planAll :: "('a \<Rightarrow> 'e list \<times> (error + 'b)) \<Rightarrow> 'a list \<Rightarrow> 'e list \<times> (error + 'b list)" where
  "planAll f [] = ([], Inr [])"
| "planAll f (x # xs) =
     (case f x of
        (ev, Inl e) \<Rightarrow> (ev, Inl e)
      | (ev, Inr y) \<Rightarrow>
          (case planAll f xs of
             (ev', Inl e) \<Rightarrow> (ev @ ev', Inl e)
           | (ev', Inr ys) \<Rightarrow> (ev @ ev', Inr (y # ys))))"

text \<open>
  The paths of a block: the path must not be a callback; then
  \<open>blockPath = resolveCallback(blockFromCallback, blockPathValue)\<close> with \<open>./\<close> for a missing
  path, and \<open>blockTo = resolveCallback(blockToCallback, blockPath) || blockPath\<close>.
\<close>

definition blockPaths :: "renderContext \<Rightarrow> string \<Rightarrow> 'tf block \<Rightarrow> error + (jsval \<times> jsval)" where
  "blockPaths ctx blockSpecPath blk =
     (case blockPathValue blk of
        JFun f \<Rightarrow> Inl (Error (''Block path should be static for '' @ blockSpecPath))
      | pv \<Rightarrow>
          bindE (resolveCallback ctx (blockFrom blk) (if isUndefined pv then JStr ''./'' else pv)) (\<lambda>bPath.
          bindE (resolveCallback ctx (blockTo blk) bPath) (\<lambda>bTo.
          Inr (bPath, orJs bTo bPath))))"

text \<open>
  One block, with its path in the specification for the messages: the templates must be
  an array; a condition that is defined and falsy drops the block; then the paths, and
  the files in order.
\<close>

definition planBlock ::
  "generator \<Rightarrow> renderContext \<Rightarrow> 'tf list \<Rightarrow> 'tf list \<Rightarrow> string \<times> 'tf block
   \<Rightarrow> 'tf event list \<times> (error + 'tf template option list)" where
  "planBlock gen ctx m s sb =
     (case sb of (blockSpecPath, blk) \<Rightarrow>
      (case blockTemplates blk of
         None \<Rightarrow> ([], Inl (AssertionError (''Block templates must be an array for '' @ blockSpecPath)))
       | Some files \<Rightarrow>
           (case resolveCallback ctx (blockCondition blk) JUndefined of
              Inl e \<Rightarrow> ([], Inl e)
            | Inr condition \<Rightarrow>
                if \<not> isUndefined condition \<and> \<not> truthy condition then ([], Inr [])
                else (case blockPaths ctx blockSpecPath blk of
                        Inl e \<Rightarrow> ([], Inl e)
                      | Inr (bPath, bTo) \<Rightarrow> planAll (planFile gen ctx m s blk bPath bTo) files))))"

text \<open>\<open>.flat().filter(template => template)\<close> over the blocks' results.\<close>

definition planBlocks ::
  "generator \<Rightarrow> renderContext \<Rightarrow> 'tf list \<Rightarrow> 'tf list \<Rightarrow> (string \<times> 'tf block) list
   \<Rightarrow> 'tf event list \<times> (error + 'tf template list)" where
  "planBlocks gen ctx m s sbs =
     (case planAll (planBlock gen ctx m s) sbs of
        (ev, Inl e) \<Rightarrow> (ev, Inl e)
      | (ev, Inr tss) \<Rightarrow> (ev, Inr (List.map_filter id (concat tss))))"

text \<open>
  The \<open>sections\<close> object: keys starting with \<open>_\<close> are skipped, any other value must be an
  array, and a block is named \<open>`${sectionName}[${blockIdx}]`\<close>; bare \<open>blocks\<close> are named by
  their index.
\<close>

definition startsWith :: "string \<Rightarrow> string \<Rightarrow> bool" where
  "startsWith s t = prefix t s"

fun parsedSections :: "(string \<times> 'tf sectionValue) list \<Rightarrow> error + (string \<times> 'tf block list) list" where
  "parsedSections [] = Inr []"
| "parsedSections ((sectionName, v) # rest) =
     (if startsWith sectionName ''_'' then parsedSections rest
      else (case v of
              SectionObject x \<Rightarrow> Inl (AssertionError (''Section must be an array for '' @ sectionName))
            | SectionBlocks sectionBlocks \<Rightarrow>
                bindE (parsedSections rest) (\<lambda>r. Inr ((sectionName, sectionBlocks) # r))))"

definition indexed :: "'a list \<Rightarrow> (nat \<times> 'a) list" where
  "indexed xs = zip [0..<length xs] xs"

definition sectionBlocksNamed :: "string \<times> 'tf block list \<Rightarrow> (string \<times> 'tf block) list" where
  "sectionBlocksNamed sb =
     (case sb of (sectionName, sectionBlocks) \<Rightarrow>
        map (\<lambda>(blockIdx, blk). (sectionName @ ''['' @ showNat blockIdx @ '']'', blk)) (indexed sectionBlocks))"

definition blocksNamed :: "'tf block list \<Rightarrow> (string \<times> 'tf block) list" where
  "blocksNamed bs = map (\<lambda>(blockIdx, blk). (showNat blockIdx, blk)) (indexed bs)"

text \<open>
  \<open>const { _: commonSpec = {} } = sections || {};
   const { transform: sectionTransform = [] } = commonSpec;\<close>
\<close>

definition sectionTransform :: "(string \<times> 'tf sectionValue) list optionKey \<Rightarrow> 'tf list" where
  "sectionTransform secs =
     (case secs of
        Value entries \<Rightarrow>
          (case map_of entries ''_'' of
             Some (SectionObject (Some tfs)) \<Rightarrow> tfs
           | _ \<Rightarrow> [])
      | _ \<Rightarrow> [])"

text \<open>A \<open>templates\<close> entry: a name is both source and destination.\<close>

definition parsedTemplate :: "'tf templateSpec \<Rightarrow> 'tf template" where
  "parsedTemplate ts =
     (case ts of
        TemplateName name \<Rightarrow>
          \<lparr> sourceFile = name, destinationFile = JStr name, templateOptions = None,
            noEjs = None, transform = None, binary = False \<rparr>
      | TemplateObject t \<Rightarrow> t)"

section \<open>\<open>writeFiles\<close>\<close>

fun present :: "'a optionKey \<Rightarrow> bool" where
  "present Absent = False"
| "present k = True"

text \<open>
  \<open>Object.keys(options).filter(key => ['sections', 'blocks', 'templates'].includes(key)).length\<close>
\<close>

definition paramCount :: "'tf writeFileOptions \<Rightarrow> nat" where
  "paramCount opts =
     length (filter id [present (sections opts), present (blocks opts), present (templates opts)])"

text \<open>
  \<open>Promise.all\<close> over the renders: the first error in the order of the templates, or all
  the target files.
\<close>

fun promiseAll :: "(error + 'a) list \<Rightarrow> error + 'a list" where
  "promiseAll [] = Inr []"
| "promiseAll (Inl e # rs) = Inl e"
| "promiseAll (Inr v # rs) = bindE (promiseAll rs) (\<lambda>vs. Inr (v # vs))"

text \<open>
  The templates to render: from the sections, else from the blocks, else the
  \<open>templates\<close> themselves; \<open>templates.map\<close> on a missing array is a \<open>TypeError\<close>.
\<close>

definition parsedTemplates ::
  "generator \<Rightarrow> renderContext \<Rightarrow> 'tf writeFileOptions \<Rightarrow> 'tf event list \<times> (error + 'tf template list)" where
  "parsedTemplates gen ctx opts =
     (let m = methodTransform opts; s = sectionTransform (sections opts) in
      case sections opts of
        Value entries \<Rightarrow>
          (case parsedSections entries of
             Inl e \<Rightarrow> ([], Inl e)
           | Inr named \<Rightarrow> planBlocks gen ctx m s (concat (map sectionBlocksNamed named)))
      | _ \<Rightarrow>
          (case blocks opts of
             Value bs \<Rightarrow> planBlocks gen ctx m s (blocksNamed bs)
           | _ \<Rightarrow>
               (case templates opts of
                  Value ts \<Rightarrow> ([], Inr (map parsedTemplate ts))
                | _ \<Rightarrow> ([], Inl (TypeError ''Cannot read properties of undefined (reading map)'')))))"

text \<open>
  The method. Its result has the events of the planning, the events of each render in
  the order of the templates (renders that suspend interleave, so there is one list for
  each), and the value of the promise: an error, or the target files that are truthy.
  The closing debug line with the elapsed time is left out.
\<close>

definition writeFiles ::
  "generator \<Rightarrow> 'tf writeFileOptions
   \<Rightarrow> 'tf event list \<times> 'tf event list list \<times> (error + jsval list)" where
  "writeFiles gen opts =
     (if \<not> paramCount opts > 0
        then ([], [], Inl (AssertionError ''One of sections, blocks or templates is required''))
      else if paramCount opts \<noteq> 1
        then ([], [], Inl (AssertionError ''Only one of sections, blocks or templates must be provided''))
      else
        (let ctx = orDefault (thisContext gen) (optContext opts) in
         case rootTemplatesAbsolutePath gen (rootTemplatesPath opts) of
           Inl e \<Rightarrow> ([], [], Inl e)
         | Inr roots \<Rightarrow>
             (case parsedTemplates gen ctx opts of
                (planned, Inl e) \<Rightarrow> (planned, [], Inl e)
              | (planned, Inr ts) \<Rightarrow>
                  (let rendered = map (renderTemplate gen ctx roots) ts
                   in (planned, map fst rendered,
                       bindE (promiseAll (map snd rendered)) (\<lambda>files. Inr (filter truthy files)))))))"

section \<open>Notions used in the statements\<close>

text \<open>The existence test of the lookup for one root.\<close>

definition templateExists :: "generator \<Rightarrow> 'tf template \<Rightarrow> string \<Rightarrow> bool" where
  "templateExists gen t rootPath =
     existsSync gen (if appendEjs t then templatePath gen [rootPath, sourceFile t] @ ''.ejs''
                     else templatePath gen [rootPath, sourceFile t])"

definition existenceTests :: "generator \<Rightarrow> string list \<Rightarrow> 'tf template \<Rightarrow> 'tf event list" where
  "existenceTests gen rs t =
     map (\<lambda>rootPath. ExistsSync (if appendEjs t then templatePath gen [rootPath, sourceFile t] @ ''.ejs''
                                  else templatePath gen [rootPath, sourceFile t])) rs"

fun isEditFile :: "'tf event \<Rightarrow> bool" where
  "isEditFile (EditFile f tfs) = True"
| "isEditFile e = False"

text \<open>The source and the destination of an event that writes a destination file.\<close>

fun written :: "'tf event \<Rightarrow> (string \<times> jsval) option" where
  "written (CopyTemplateAsync f d) = Some (f, d)"
| "written (RenderTemplateAsync f d c opts roots) = Some (f, d)"
| "written (RenderTemplateSync f d c opts roots) = Some (f, d)"
| "written e = None"

text \<open>The log lines among the events.\<close>

fun isLog :: "'tf event \<Rightarrow> bool" where
  "isLog (LoggerWarn m) = True"
| "isLog (LoggerDebug m) = True"
| "isLog e = False"

text \<open>
  The one way in which a render whose template is found can still fail: the template is
  expanded for an entity and the context has no \<open>baseName\<close>.
\<close>

definition missingBaseName :: "renderContext \<Rightarrow> 'tf template \<Rightarrow> bool" where
  "missingBaseName ctx t =
     (ejsFile t \<and> truthyString (entityClass ctx) \<and> \<not> truthyString (baseName ctx))"

definition baseNameError :: error where
  "baseNameError = Error ''baseName is require at templates context''"

text \<open>The file of a template in a root, and the error of a lookup that finds none.\<close>

definition rootFile :: "generator \<Rightarrow> 'tf template \<Rightarrow> string \<Rightarrow> string" where
  "rootFile gen t rootPath =
     (if appendEjs t then templatePath gen [rootPath, sourceFile t] @ ''.ejs''
      else templatePath gen [rootPath, sourceFile t])"

definition notFound :: "'tf template \<Rightarrow> string list \<Rightarrow> error" where
  "notFound t rs = Error (''Template file '' @ sourceFile t @ '' was not found at '' @ joinComma rs)"

text \<open>The first of the roots' files that exist, and the message that lists all of them.\<close>

definition firstMatch :: "generator \<Rightarrow> string list \<Rightarrow> 'tf template \<Rightarrow> string" where
  "firstMatch gen rs t =
     (if appendEjs t then hd (existingTemplates gen rs (appendEjs t) (sourceFile t)) @ ''.ejs''
      else hd (existingTemplates gen rs (appendEjs t) (sourceFile t)))"

definition conflictMessage :: "generator \<Rightarrow> string list \<Rightarrow> 'tf template \<Rightarrow> string" where
  "conflictMessage gen rs t =
     moreThanOneMessage (sourceFile t) (existingTemplates gen rs (appendEjs t) (sourceFile t))"

text \<open>The number of occurrences of the sentinel in a text.\<close>

fun countNeedles :: "string \<Rightarrow> nat" where
  "countNeedles [] = 0"
| "countNeedles (c # cs) = (if prefix needle (c # cs) then 1 else 0) + countNeedles cs"

text \<open>
  The whitespace that ends a text, and a line break \<open>nl\<close> after the text \<open>pre\<close> at which
  the regular expression can start a match that reaches a sentinel after whitespace only:
  no earlier line break is followed by whitespace only, and a line feed is not the second
  half of a carriage return and line feed.
\<close>

definition trailingSpace :: "string \<Rightarrow> string" where
  "trailingSpace p = rev (takeWhile isSpace (rev p))"

definition lineStart :: "string \<Rightarrow> string \<Rightarrow> bool" where
  "lineStart pre nl =
     (CHR 0x0A \<notin> set (trailingSpace pre)
      \<and> (nl = [CHR 0x0D, CHR 0x0A] \<or> nl = [CHR 0x0A] \<and> (pre = [] \<or> last pre \<noteq> CHR 0x0D)))"




text \<open>The edit callbacks of a \<open>transform\<close> field: those of an array, none otherwise.\<close>

definition transformsOf :: "'tf transformSpec \<Rightarrow> 'tf list" where
  "transformsOf ts = (case ts of TransformArray tfs \<Rightarrow> tfs | _ \<Rightarrow> [])"

definition fileTransforms :: "'tf fileSpec \<Rightarrow> 'tf list" where
  "fileTransforms fsp = (case fsp of FileName n \<Rightarrow> [] | FileObject fo \<Rightarrow> transformsOf (fsTransform fo))"

text \<open>
  An example generator: two template folders, paths joined with a slash, and the given
  template files and destination files in existence.
\<close>

fun joinSlash :: "string list \<Rightarrow> string" where
  "joinSlash [] = []"
| "joinSlash [x] = x"
| "joinSlash (x # y # ys) = x @ ''/'' @ joinSlash (y # ys)"

definition plainContext :: renderContext where
  "plainContext = \<lparr> entityClass = None, baseName = Some ''jhipster'', fakerSeed = None \<rparr>"

definition exampleGenerator :: "string list \<Rightarrow> string list \<Rightarrow> generator" where
  "exampleGenerator templateFiles destinationFiles =
     \<lparr> jhipsterTemplatesFolders = Some [''blueprint'', ''jhipster''],
       templatePath = joinSlash,
       destinationPath = joinSlash,
       pathJoin = joinSlash,
       existsSync = (\<lambda>p. p \<in> set templateFiles),
       fsExists = (\<lambda>p. p \<in> set destinationFiles),
       configSharedEntities = Some [''Foo''],
       applicationSharedEntities = Some [''Foo'', ''Bar''],
       thisContext = plainContext \<rparr>"

definition exampleOptions :: "nat writeFileOptions" where
  "exampleOptions =
     \<lparr> sections = Absent, blocks = Absent, templates = Absent,
       rootTemplatesPath = RootPathUndefined, optContext = None, methodTransform = [] \<rparr>"

definition exampleBlock :: "nat block" where
  "exampleBlock =
     \<lparr> blockPathValue = JUndefined, blockFrom = JUndefined, blockTo = JUndefined,
       blockCondition = JUndefined, blockTransform = TransformUndefined,
       blockRenameTo = None, blockTemplates = Some [] \<rparr>"

definition exampleFile :: "string \<Rightarrow> nat fileObject" where
  "exampleFile name =
     \<lparr> fsSourceFile = JUndefined, fsFile = JStr name, fsDestinationFile = JUndefined,
       fsRenameTo = JUndefined, fsOverride = JUndefined, fsTransform = TransformUndefined,
       fsNoEjs = None, fsBinary = False, fsMethod = None, fsOptions = None \<rparr>"

definition entityContext :: "string option \<Rightarrow> renderContext" where
  "entityContext bn = \<lparr> entityClass = Some ''Foo'', baseName = bn, fakerSeed = Some ''42'' \<rparr>"

definition orderedBlock :: "nat block" where
  "orderedBlock = exampleBlock \<lparr> blockPathValue := JStr ''src'', blockTransform := TransformArray [1, 2] \<rparr>"

definition orderedFile :: "nat fileObject" where
  "orderedFile = (exampleFile ''a.txt'') \<lparr> fsTransform := TransformArray [3] \<rparr>"

definition orderedTemplate :: "nat template" where
  "orderedTemplate =
     \<lparr> sourceFile = ''src/a.txt'', destinationFile = JStr ''src/a.txt'', templateOptions = None,
       noEjs = None, transform = Some [7, 9, 1, 2, 3], binary = False \<rparr>"

section \<open>Facts about the examples\<close>

lemmas writeFiles_eval =
  writeFiles_def paramCount_def exampleOptions_def exampleGenerator_def exampleBlock_def exampleFile_def
  rootTemplatesAbsolutePath_def parsedTemplates_def sectionTransform_def blocksNamed_def indexed_def
  planBlocks_def planBlock_def blockPaths_def planFile_def planFileName_def planFileObject_def
  resolveFileObject_def derivedTransform_def fileDerivedTransform_def blockNoEjs_def fileNoEjs_def
  methodNoEjs_def bindE_def asPath_def orJs_def orDefault_def callFunction_def
  renderTemplate_def targetFile_def sourceFileFrom_def existingTemplates_def lookupLog_def
  entitySeeding_def truthyString_def userRenderOptions_def editEvents_def
  isBinary_def appendEjs_def ejsFile_def binaryExtensions_def extname_def basename_def
  normalizeEjs_def List.map_filter_def Let_def plainContext_def

lemma ordered_planFile:
  "planFile (exampleGenerator [''jhipster/src/a.txt.ejs''] []) plainContext [7] [9] orderedBlock
      (JStr ''src'') (JStr ''src'') (FileObject orderedFile)
     = ([], Inr (Some orderedTemplate))"
  by (simp add: writeFiles_eval orderedBlock_def orderedFile_def orderedTemplate_def)

lemma ordered_renderTemplate:
  "renderTemplate (exampleGenerator [''jhipster/src/a.txt.ejs''] []) plainContext
      (RootsArray [''blueprint'', ''jhipster'']) orderedTemplate
     = ([ExistsSync ''blueprint/src/a.txt.ejs'', ExistsSync ''jhipster/src/a.txt.ejs'',
         RenderTemplateAsync ''jhipster/src/a.txt.ejs'' (JStr ''src/a.txt'')
           plainContext [] (RootsArray [''blueprint'', ''jhipster'']),
         EditFile (JStr ''src/a.txt'') [7, 9, 1, 2, 3]],
        Inr (JStr ''src/a.txt''))"
  by (simp add: writeFiles_eval orderedTemplate_def plainContext_def)


lemma example_appendEjs:
  "appendEjs (parsedTemplate (TemplateName ''f'') :: nat template)"
  by (simp add: appendEjs_def isBinary_def parsedTemplate_def extname_def basename_def
        binaryExtensions_def)

lemma example_sourceFile:
  "sourceFile (parsedTemplate (TemplateName n)) = n"
  "destinationFile (parsedTemplate (TemplateName n)) = JStr n"
  "transform (parsedTemplate (TemplateName n)) = None"
  "templateOptions (parsedTemplate (TemplateName n)) = None"
  by (simp_all add: parsedTemplate_def)

lemma example_sourceFileFrom:
  "sourceFileFrom (exampleGenerator [''jhipster/f.ejs''] []) (RootsArray [''blueprint'', ''jhipster''])
      (parsedTemplate (TemplateName ''f'') :: nat template)
     = ([ExistsSync ''blueprint/f.ejs'', ExistsSync ''jhipster/f.ejs''], Inr ''jhipster/f.ejs'')"
  by (simp add: sourceFileFrom_def Let_def existingTemplates_def exampleGenerator_def
        example_appendEjs lookupLog_def example_sourceFile)

lemma example_targetFile:
  "targetFile ctx (parsedTemplate (TemplateName ''f'') :: nat template) = Inr (JStr ''f'')"
  by (simp add: targetFile_def example_sourceFile example_appendEjs normalizeEjs_def)

section \<open>Template roots: precedence and diagnostics\<close>

lemma filter_first_index:
  "i < length xs \<Longrightarrow> P (xs ! i) \<Longrightarrow> (\<forall>j < i. \<not> P (xs ! j)) \<Longrightarrow>
     \<exists>rest. filter P xs = xs ! i # rest"
proof (induction xs arbitrary: i)
  case Nil
  then show ?case by simp
next
  case (Cons x xs)
  show ?case
  proof (cases i)
    case 0
    with Cons.prems show ?thesis by simp
  next
    case (Suc k)
    with Cons.prems have "\<not> P x" by auto
    moreover have "\<exists>rest. filter P xs = xs ! k # rest"
      using Cons.prems Suc by (intro Cons.IH) auto
    ultimately show ?thesis using Suc by simp
  qed
qed

lemma map_filter_append: "List.map_filter f (xs @ ys) = List.map_filter f xs @ List.map_filter f ys"
  by (simp add: List.map_filter_def)

lemma map_filter_none: "(\<forall>x \<in> set xs. f x = None) \<Longrightarrow> List.map_filter f xs = []"
  by (induction xs) (simp_all add: List.map_filter_def)

lemma sourceFileFrom_written:
  assumes "sourceFileFrom gen roots t = ((found :: 'tf event list), r)"
  shows "List.map_filter written found = []"
  using assms
  by (intro map_filter_none)
     (auto simp: sourceFileFrom_def Let_def lookupLog_def split: templateRoots.splits if_splits)

lemma entitySeeding_written:
  assumes "entitySeeding gen ctx from = ((seeded :: 'tf event list), u)"
  shows "List.map_filter written seeded = []" and "filter isLog seeded = []"
  using assms by (auto simp: entitySeeding_def List.map_filter_def filter_empty_conv split: if_splits)

lemma editEvents_written:
  "List.map_filter written (editEvents t target) = []"
  "filter isLog (editEvents t target) = []"
  by (auto simp: editEvents_def List.map_filter_def split: option.splits)

lemma renderTemplate_found:
  assumes "targetFile ctx t = Inr target"
    and "sourceFileFrom gen roots t = (found, Inr from)"
  shows "snd (renderTemplate gen ctx roots t)
           = (if missingBaseName ctx t then Inl baseNameError else Inr target)"
    and "List.map_filter written (fst (renderTemplate gen ctx roots t))
           = (if missingBaseName ctx t then [] else [(from, target)])"
    and "filter isLog (fst (renderTemplate gen ctx roots t)) = filter isLog found"
proof -
  obtain seeded :: "'a event list" and u where e: "entitySeeding gen ctx from = (seeded, u)"
    by (cases "entitySeeding gen ctx from :: 'a event list \<times> (error + bool)") auto
  have u: "u = (if truthyString (entityClass ctx) \<and> \<not> truthyString (baseName ctx)
                then Inl baseNameError
                else Inr (\<not> truthyString (entityClass ctx)))"
    using e by (auto simp: entitySeeding_def baseNameError_def split: if_splits)
  have w: "List.map_filter written found = []"
    by (rule sourceFileFrom_written [OF assms(2)])
  have s: "List.map_filter written seeded = []" "filter isLog seeded = []"
    using entitySeeding_written [OF e] by simp_all
  show "snd (renderTemplate gen ctx roots t)
           = (if missingBaseName ctx t then Inl baseNameError else Inr target)"
    using assms e u by (auto simp: renderTemplate_def missingBaseName_def)
  show "List.map_filter written (fst (renderTemplate gen ctx roots t))
           = (if missingBaseName ctx t then [] else [(from, target)])"
    using assms e u w s editEvents_written(1) [of t target]
    by (auto simp: renderTemplate_def missingBaseName_def map_filter_append)
  show "filter isLog (fst (renderTemplate gen ctx roots t)) = filter isLog found"
    using assms e u s editEvents_written(2) [of t target]
    by (auto simp: renderTemplate_def)
qed

lemma renderTemplate_notfound:
  assumes "targetFile ctx t = Inr target"
    and "sourceFileFrom gen roots t = (found, Inl e)"
  shows "renderTemplate gen ctx roots t = (found, Inl e)"
  using assms by (simp add: renderTemplate_def)

lemma existingTemplates_none:
  assumes "\<forall>r \<in> set rs. \<not> templateExists gen t r"
  shows "existingTemplates gen rs (appendEjs t) (sourceFile t) = []"
  using assms by (auto simp: existingTemplates_def templateExists_def filter_empty_conv)

lemma existingTemplates_first:
  assumes "i < length rs" and "templateExists gen t (rs ! i)"
    and "\<forall>j < i. \<not> templateExists gen t (rs ! j)"
  shows "\<exists>rest. existingTemplates gen rs (appendEjs t) (sourceFile t)
           = templatePath gen [rs ! i, sourceFile t] # rest"
proof -
  let ?P = "\<lambda>templateFile. existsSync gen (if appendEjs t then templateFile @ ''.ejs'' else templateFile)"
  let ?xs = "map (\<lambda>rootPath. templatePath gen [rootPath, sourceFile t]) rs"
  have "\<exists>rest. filter ?P ?xs = ?xs ! i # rest"
  proof (rule filter_first_index)
    show "i < length ?xs" using assms(1) by simp
    show "?P (?xs ! i)" using assms(1,2) by (simp add: templateExists_def split: if_splits)
    show "\<forall>j<i. \<not> ?P (?xs ! j)" using assms(1,3) by (auto simp: templateExists_def split: if_splits)
  qed
  then show ?thesis using assms(1) by (auto simp: existingTemplates_def)
qed

text \<open>
  Claim C1. For a template whose target resolves, with an ordered list of template roots:
  when no root has the source file, the lookup and the render fail with the error
  ``Template file ... was not found at'' followed by the searched roots, and nothing is
  written; when some root has it, the render writes the target from the file of the
  earliest such root, and from no other (so with one root having it, from that root's
  file; with several, from the first in the order), and returns the target. The only
  render that finds its file and still fails is the one of an entity template without a
  \<open>baseName\<close> in the context, which writes nothing.
\<close>

theorem root_precedence:
  assumes "targetFile ctx t = Inr target"
  shows "((\<forall>r \<in> set rs. \<not> templateExists gen t r) \<longrightarrow>
            snd (sourceFileFrom gen (RootsArray rs) t) = Inl (notFound t rs)
            \<and> snd (renderTemplate gen ctx (RootsArray rs) t) = Inl (notFound t rs)
            \<and> List.map_filter written (fst (renderTemplate gen ctx (RootsArray rs) t)) = [])
       \<and> (\<forall>i < length rs.
            templateExists gen t (rs ! i) \<and> (\<forall>j < i. \<not> templateExists gen t (rs ! j)) \<longrightarrow>
            snd (sourceFileFrom gen (RootsArray rs) t) = Inr (rootFile gen t (rs ! i))
            \<and> snd (renderTemplate gen ctx (RootsArray rs) t)
                = (if missingBaseName ctx t then Inl baseNameError else Inr target)
            \<and> List.map_filter written (fst (renderTemplate gen ctx (RootsArray rs) t))
                = (if missingBaseName ctx t then [] else [(rootFile gen t (rs ! i), target)]))"
proof (intro conjI impI allI)
  assume n: "\<forall>r \<in> set rs. \<not> templateExists gen t r"
  obtain found :: "'a event list" where
    f: "sourceFileFrom gen (RootsArray rs) t = (found, Inl (notFound t rs))"
    using existingTemplates_none [OF n] by (simp add: sourceFileFrom_def Let_def notFound_def)
  show "snd (sourceFileFrom gen (RootsArray rs) t) = Inl (notFound t rs)"
    using existingTemplates_none [OF n] by (simp add: sourceFileFrom_def Let_def notFound_def)
  show "snd (renderTemplate gen ctx (RootsArray rs) t) = Inl (notFound t rs)"
    by (simp add: renderTemplate_notfound [OF assms f])
  show "List.map_filter written (fst (renderTemplate gen ctx (RootsArray rs) t)) = []"
    using sourceFileFrom_written [OF f] by (simp add: renderTemplate_notfound [OF assms f])
next
  fix i
  assume i: "i < length rs"
    and h: "templateExists gen t (rs ! i) \<and> (\<forall>j < i. \<not> templateExists gen t (rs ! j))"
  obtain rest where e: "existingTemplates gen rs (appendEjs t) (sourceFile t)
      = templatePath gen [rs ! i, sourceFile t] # rest"
    using existingTemplates_first [OF i] h by blast
  obtain found :: "'a event list" where
    f: "sourceFileFrom gen (RootsArray rs) t = (found, Inr (rootFile gen t (rs ! i)))"
    using e by (simp add: sourceFileFrom_def Let_def rootFile_def)
  show "snd (sourceFileFrom gen (RootsArray rs) t) = Inr (rootFile gen t (rs ! i))"
    using e by (simp add: sourceFileFrom_def Let_def rootFile_def)
  show "snd (renderTemplate gen ctx (RootsArray rs) t)
          = (if missingBaseName ctx t then Inl baseNameError else Inr target)"
    by (rule renderTemplate_found(1) [OF assms f])
  show "List.map_filter written (fst (renderTemplate gen ctx (RootsArray rs) t))
          = (if missingBaseName ctx t then [] else [(rootFile gen t (rs ! i), target)])"
    by (rule renderTemplate_found(2) [OF assms f])
qed

theorem root_precedence_witness:
  "snd (renderTemplate (exampleGenerator [''blueprint/f.ejs'', ''jhipster/f.ejs''] []) plainContext
         (RootsArray [''blueprint'', ''jhipster'']) (parsedTemplate (TemplateName ''f'') :: nat template))
     = Inr (JStr ''f'')
   \<and> List.map_filter written
       (fst (renderTemplate (exampleGenerator [''blueprint/f.ejs'', ''jhipster/f.ejs''] []) plainContext
         (RootsArray [''blueprint'', ''jhipster'']) (parsedTemplate (TemplateName ''f'') :: nat template)))
     = [(''blueprint/f.ejs'', JStr ''f'')]
   \<and> List.map_filter written
       (fst (renderTemplate (exampleGenerator [''jhipster/f.ejs''] []) plainContext
         (RootsArray [''blueprint'', ''jhipster'']) (parsedTemplate (TemplateName ''f'') :: nat template)))
     = [(''jhipster/f.ejs'', JStr ''f'')]
   \<and> snd (renderTemplate (exampleGenerator [] []) plainContext
         (RootsArray [''blueprint'', ''jhipster'']) (parsedTemplate (TemplateName ''f'') :: nat template))
     = Inl (Error ''Template file f was not found at blueprint,jhipster'')"
proof -
  let ?t = "parsedTemplate (TemplateName ''f'') :: nat template"
  note defs = templateExists_def exampleGenerator_def example_appendEjs example_sourceFile less_Suc_eq
    rootFile_def notFound_def missingBaseName_def plainContext_def truthyString_def
  have t: "targetFile plainContext ?t = Inr (JStr ''f'')" by (rule example_targetFile)
  show ?thesis
    using root_precedence [OF t, of "[''blueprint'', ''jhipster'']"
            "exampleGenerator [''blueprint/f.ejs'', ''jhipster/f.ejs''] []",
            THEN conjunct2, rule_format, of 0]
          root_precedence [OF t, of "[''blueprint'', ''jhipster'']"
            "exampleGenerator [''jhipster/f.ejs''] []", THEN conjunct2, rule_format, of 1]
          root_precedence [OF t, of "[''blueprint'', ''jhipster'']"
            "exampleGenerator [] []", THEN conjunct1, rule_format]
    by (simp add: defs)
qed

text \<open>
  Claim C8. For a template whose target resolves: a source file found in more than two
  roots gives one warning (``Possible blueprint conflict detected'') and no other log
  line, and a file found in exactly two roots gives one debug line and no warning; in
  both cases the render goes on, writes the target from the first match and returns
  the target (unless the entity template lacks its \<open>baseName\<close>, which is an error of its
  own).
\<close>

theorem override_conflict_diagnostics:
  assumes "targetFile ctx t = Inr target"
  shows "(2 < length (existingTemplates gen rs (appendEjs t) (sourceFile t)) \<longrightarrow>
            sourceFileFrom gen (RootsArray rs) t =
              (existenceTests gen rs t
                 @ [LoggerWarn (''Possible blueprint conflict detected: '' @ conflictMessage gen rs t)],
               Inr (firstMatch gen rs t))
            \<and> filter isLog (fst (renderTemplate gen ctx (RootsArray rs) t))
                = [LoggerWarn (''Possible blueprint conflict detected: '' @ conflictMessage gen rs t)]
            \<and> snd (renderTemplate gen ctx (RootsArray rs) t)
                = (if missingBaseName ctx t then Inl baseNameError else Inr target)
            \<and> List.map_filter written (fst (renderTemplate gen ctx (RootsArray rs) t))
                = (if missingBaseName ctx t then [] else [(firstMatch gen rs t, target)]))
       \<and> (length (existingTemplates gen rs (appendEjs t) (sourceFile t)) = 2 \<longrightarrow>
            sourceFileFrom gen (RootsArray rs) t =
              (existenceTests gen rs t @ [LoggerDebug (conflictMessage gen rs t)],
               Inr (firstMatch gen rs t))
            \<and> filter isLog (fst (renderTemplate gen ctx (RootsArray rs) t))
                = [LoggerDebug (conflictMessage gen rs t)]
            \<and> snd (renderTemplate gen ctx (RootsArray rs) t)
                = (if missingBaseName ctx t then Inl baseNameError else Inr target)
            \<and> List.map_filter written (fst (renderTemplate gen ctx (RootsArray rs) t))
                = (if missingBaseName ctx t then [] else [(firstMatch gen rs t, target)]))"
proof (intro conjI impI)
  assume m: "2 < length (existingTemplates gen rs (appendEjs t) (sourceFile t))"
  have l: "filter isLog (existenceTests gen rs t :: 'a event list) = []"
    by (simp add: existenceTests_def filter_empty_conv)
  show f: "sourceFileFrom gen (RootsArray rs) t =
              (existenceTests gen rs t
                 @ [LoggerWarn (''Possible blueprint conflict detected: '' @ conflictMessage gen rs t)],
               Inr (firstMatch gen rs t))"
  proof -
    obtain a r where e: "existingTemplates gen rs (appendEjs t) (sourceFile t) = a # r"
      using m by (cases "existingTemplates gen rs (appendEjs t) (sourceFile t)") auto
    have n: "2 < length (a # r)" "1 < length (a # r)" "r \<noteq> []" using m e by auto
    show ?thesis
      unfolding sourceFileFrom_def Let_def lookupLog_def existenceTests_def firstMatch_def
        conflictMessage_def templateRoots.case e
      using n by auto
  qed
  show "filter isLog (fst (renderTemplate gen ctx (RootsArray rs) t))
                = [LoggerWarn (''Possible blueprint conflict detected: '' @ conflictMessage gen rs t)]"
    using l by (simp add: renderTemplate_found(3) [OF assms f])
  show "snd (renderTemplate gen ctx (RootsArray rs) t)
                = (if missingBaseName ctx t then Inl baseNameError else Inr target)"
    by (rule renderTemplate_found(1) [OF assms f])
  show "List.map_filter written (fst (renderTemplate gen ctx (RootsArray rs) t))
                = (if missingBaseName ctx t then [] else [(firstMatch gen rs t, target)])"
    by (rule renderTemplate_found(2) [OF assms f])
next
  assume m: "length (existingTemplates gen rs (appendEjs t) (sourceFile t)) = 2"
  have l: "filter isLog (existenceTests gen rs t :: 'a event list) = []"
    by (simp add: existenceTests_def filter_empty_conv)
  show f: "sourceFileFrom gen (RootsArray rs) t =
              (existenceTests gen rs t @ [LoggerDebug (conflictMessage gen rs t)],
               Inr (firstMatch gen rs t))"
  proof -
    obtain a r where e: "existingTemplates gen rs (appendEjs t) (sourceFile t) = a # r"
      using m by (cases "existingTemplates gen rs (appendEjs t) (sourceFile t)") auto
    have n: "length (a # r) = 2" "1 < length (a # r)" "r \<noteq> []" using m e by auto
    show ?thesis
      unfolding sourceFileFrom_def Let_def lookupLog_def existenceTests_def firstMatch_def
        conflictMessage_def templateRoots.case e
      using n by auto
  qed
  show "filter isLog (fst (renderTemplate gen ctx (RootsArray rs) t))
                = [LoggerDebug (conflictMessage gen rs t)]"
    using l by (simp add: renderTemplate_found(3) [OF assms f])
  show "snd (renderTemplate gen ctx (RootsArray rs) t)
                = (if missingBaseName ctx t then Inl baseNameError else Inr target)"
    by (rule renderTemplate_found(1) [OF assms f])
  show "List.map_filter written (fst (renderTemplate gen ctx (RootsArray rs) t))
                = (if missingBaseName ctx t then [] else [(firstMatch gen rs t, target)])"
    by (rule renderTemplate_found(2) [OF assms f])
qed

theorem override_conflict_diagnostics_witness:
  "renderTemplate (exampleGenerator [''a/f.ejs'', ''b/f.ejs'', ''c/f.ejs''] []) plainContext
      (RootsArray [''a'', ''b'', ''c'']) (parsedTemplate (TemplateName ''f'') :: nat template)
     = ([ExistsSync ''a/f.ejs'', ExistsSync ''b/f.ejs'', ExistsSync ''c/f.ejs'',
         LoggerWarn (''Possible blueprint conflict detected: ''
            @ moreThanOneMessage ''f'' [''a/f'', ''b/f'', ''c/f'']),
         RenderTemplateAsync ''a/f.ejs'' (JStr ''f'') plainContext [] (RootsArray [''a'', ''b'', ''c''])],
        Inr (JStr ''f''))
   \<and> renderTemplate (exampleGenerator [''b/f.ejs'', ''c/f.ejs''] []) plainContext
      (RootsArray [''a'', ''b'', ''c'']) (parsedTemplate (TemplateName ''f'') :: nat template)
     = ([ExistsSync ''a/f.ejs'', ExistsSync ''b/f.ejs'', ExistsSync ''c/f.ejs'',
         LoggerDebug (moreThanOneMessage ''f'' [''b/f'', ''c/f'']),
         RenderTemplateAsync ''b/f.ejs'' (JStr ''f'') plainContext [] (RootsArray [''a'', ''b'', ''c''])],
        Inr (JStr ''f''))"
proof -
  let ?t = "parsedTemplate (TemplateName ''f'') :: nat template"
  let ?g3 = "exampleGenerator [''a/f.ejs'', ''b/f.ejs'', ''c/f.ejs''] []"
  let ?g2 = "exampleGenerator [''b/f.ejs'', ''c/f.ejs''] []"
  have 3: "existingTemplates ?g3 [''a'', ''b'', ''c''] (appendEjs ?t) (sourceFile ?t) = [''a/f'', ''b/f'', ''c/f'']"
    by (simp add: existingTemplates_def exampleGenerator_def example_appendEjs example_sourceFile)
  have 2: "existingTemplates ?g2 [''a'', ''b'', ''c''] (appendEjs ?t) (sourceFile ?t) = [''b/f'', ''c/f'']"
    by (simp add: existingTemplates_def exampleGenerator_def example_appendEjs example_sourceFile)
  have t: "targetFile plainContext ?t = Inr (JStr ''f'')" by (rule example_targetFile)
  have fm: "firstMatch ?g3 [''a'', ''b'', ''c''] ?t = ''a/f.ejs''"
     "conflictMessage ?g3 [''a'', ''b'', ''c''] ?t = moreThanOneMessage ''f'' [''a/f'', ''b/f'', ''c/f'']"
     "firstMatch ?g2 [''a'', ''b'', ''c''] ?t = ''b/f.ejs''"
     "conflictMessage ?g2 [''a'', ''b'', ''c''] ?t = moreThanOneMessage ''f'' [''b/f'', ''c/f'']"
    unfolding firstMatch_def conflictMessage_def 3 2 by (simp_all add: example_appendEjs example_sourceFile)
  have ex: "existenceTests g [''a'', ''b'', ''c''] ?t
      = [ExistsSync (templatePath g [''a'', ''f''] @ ''.ejs''), ExistsSync (templatePath g [''b'', ''f''] @ ''.ejs''),
         ExistsSync (templatePath g [''c'', ''f''] @ ''.ejs'')]" for g
    by (simp add: existenceTests_def example_appendEjs example_sourceFile)
  have w: "sourceFileFrom ?g3 (RootsArray [''a'', ''b'', ''c'']) ?t
           = ([ExistsSync ''a/f.ejs'', ExistsSync ''b/f.ejs'', ExistsSync ''c/f.ejs'',
               LoggerWarn (''Possible blueprint conflict detected: ''
                 @ moreThanOneMessage ''f'' [''a/f'', ''b/f'', ''c/f''])], Inr ''a/f.ejs'')"
    using override_conflict_diagnostics [OF t, of ?g3 "[''a'', ''b'', ''c'']", THEN conjunct1]
    unfolding 3 fm ex by (simp add: exampleGenerator_def)
  have d: "sourceFileFrom ?g2 (RootsArray [''a'', ''b'', ''c'']) ?t
           = ([ExistsSync ''a/f.ejs'', ExistsSync ''b/f.ejs'', ExistsSync ''c/f.ejs'',
               LoggerDebug (moreThanOneMessage ''f'' [''b/f'', ''c/f''])], Inr ''b/f.ejs'')"
    using override_conflict_diagnostics [OF t, of ?g2 "[''a'', ''b'', ''c'']", THEN conjunct2]
    unfolding 2 fm ex by (simp add: exampleGenerator_def)
  show ?thesis
    unfolding renderTemplate_def t w d
    by (simp add: ejsFile_def example_appendEjs entitySeeding_def orDefault_def
          plainContext_def truthyString_def userRenderOptions_def editEvents_def example_sourceFile)
qed

section \<open>Validation of the request\<close>

text \<open>
  Claim C2. A request with none of the keys \<open>sections\<close>, \<open>blocks\<close>, \<open>templates\<close>, or with
  more than one of them, fails with an assertion error, and nothing has happened before:
  no planning event (no existence test on a destination) and no render of any template
  (no lookup, copy, render or edit).
\<close>

theorem writeFiles_validation:
  "paramCount opts \<noteq> 1 \<Longrightarrow>
     writeFiles gen opts =
       ([], [], Inl (AssertionError
          (if paramCount opts = 0 then ''One of sections, blocks or templates is required''
           else ''Only one of sections, blocks or templates must be provided'')))"
  by (simp add: writeFiles_def)

theorem writeFiles_validation_witness:
  "writeFiles (exampleGenerator [] []) (exampleOptions \<lparr> sections := Value [], templates := Value [] \<rparr>)
     = ([], [], Inl (AssertionError ''Only one of sections, blocks or templates must be provided''))
   \<and> writeFiles (exampleGenerator [] []) exampleOptions
     = ([], [], Inl (AssertionError ''One of sections, blocks or templates is required''))"
  using writeFiles_validation [of "exampleOptions \<lparr> sections := Value [], templates := Value [] \<rparr>"
          "exampleGenerator [] []"]
        writeFiles_validation [of exampleOptions "exampleGenerator [] []"]
  by (simp add: paramCount_def exampleOptions_def)

section \<open>Entity templates\<close>

text \<open>
  Claim C5, as amended. For a template that is expanded, found, and rendered with a
  context that has an \<open>entityClass\<close>: when the context also has a \<open>baseName\<close>, every
  entity of the two shared registries is reseeded with the seed made of the entity class,
  the base name of the template file and the optional \<open>fakerSeed\<close>, immediately before
  the render, which is the synchronous one; without a \<open>baseName\<close> the render fails
  and nothing is reseeded or rendered.
\<close>

theorem entity_seeding:
  assumes "truthyString (entityClass ctx)"
    and "ejsFile t"
    and "targetFile ctx t = Inr target"
    and "sourceFileFrom gen roots t = (found, Inr from)"
  shows "(truthyString (baseName ctx) \<longrightarrow>
           renderTemplate gen ctx roots t =
            (found
             @ map (\<lambda>entity. ResetFakerSeed ConfigOptions entity
                     (orDefault [] (entityClass ctx) @ ''-'' @ basename from @ orDefault [] (fakerSeed ctx)))
                 (orDefault [] (configSharedEntities gen))
             @ map (\<lambda>entity. ResetFakerSeed SharedApplication entity
                     (orDefault [] (entityClass ctx) @ ''-'' @ basename from @ orDefault [] (fakerSeed ctx)))
                 (orDefault [] (applicationSharedEntities gen))
             @ [RenderTemplateSync from target ctx (userRenderOptions t) roots]
             @ editEvents t target,
             Inr target))
       \<and> (\<not> truthyString (baseName ctx) \<longrightarrow>
           renderTemplate gen ctx roots t =
             (found, Inl (Error ''baseName is require at templates context'')))"
  using assms by (simp add: renderTemplate_def entitySeeding_def fakerSeedOf_def)

theorem entity_seeding_witness:
  "renderTemplate (exampleGenerator [''jhipster/f.ejs''] []) (entityContext (Some ''app''))
      (RootsArray [''blueprint'', ''jhipster'']) (parsedTemplate (TemplateName ''f'') :: nat template)
     = ([ExistsSync ''blueprint/f.ejs'', ExistsSync ''jhipster/f.ejs'',
         ResetFakerSeed ConfigOptions ''Foo'' ''Foo-f.ejs42'',
         ResetFakerSeed SharedApplication ''Foo'' ''Foo-f.ejs42'',
         ResetFakerSeed SharedApplication ''Bar'' ''Foo-f.ejs42'',
         RenderTemplateSync ''jhipster/f.ejs'' (JStr ''f'') (entityContext (Some ''app'')) []
           (RootsArray [''blueprint'', ''jhipster''])],
        Inr (JStr ''f''))"
proof -
  have 1: "truthyString (entityClass (entityContext (Some ''app'')))"
    by (simp add: entityContext_def truthyString_def)
  have 2: "ejsFile (parsedTemplate (TemplateName ''f'') :: nat template)"
    by (simp add: ejsFile_def example_appendEjs)
  show ?thesis
    using entity_seeding [OF 1 2 example_targetFile example_sourceFileFrom, THEN conjunct1]
    by (simp add: entityContext_def truthyString_def orDefault_def exampleGenerator_def
          basename_def userRenderOptions_def editEvents_def example_sourceFile)
qed

text \<open>
  The claim as first stated, for every context with an \<open>entityClass\<close>, fails for a context
  without a \<open>baseName\<close>: the template is found, and the render ends in an error before
  any entity is reseeded.
\<close>

theorem entity_seeding_counterexample:
  "renderTemplate (exampleGenerator [''jhipster/f.ejs''] []) (entityContext None)
      (RootsArray [''blueprint'', ''jhipster'']) (parsedTemplate (TemplateName ''f'') :: nat template)
     = ([ExistsSync ''blueprint/f.ejs'', ExistsSync ''jhipster/f.ejs''],
        Inl (Error ''baseName is require at templates context''))"
  by (simp add: renderTemplate_def example_targetFile example_sourceFileFrom ejsFile_def
        example_appendEjs entitySeeding_def entityContext_def truthyString_def)

section \<open>The transforms of a file\<close>

lemma sourceFileFrom_events:
  "sourceFileFrom gen roots t = (found, r) \<Longrightarrow> \<not> list_ex isEditFile found"
  by (auto simp: sourceFileFrom_def Let_def lookupLog_def list_ex_iff split: templateRoots.splits if_splits)

lemma entitySeeding_events:
  "entitySeeding gen ctx from = (seeded, r) \<Longrightarrow> \<not> list_ex isEditFile seeded"
  by (auto simp: entitySeeding_def list_ex_iff split: if_splits)

lemma filter_none: "\<not> list_ex P xs \<Longrightarrow> filter P xs = []"
  by (simp add: list_ex_iff filter_empty_conv)

lemma editEvents_filter:
  "filter isEditFile (editEvents t target) = editEvents t target"
  by (auto simp: editEvents_def split: option.splits)

lemma renderTemplate_edits:
  assumes "renderTemplate gen ctx roots t = ((ev :: 'tf event list), Inr target)"
  shows "filter isEditFile ev = editEvents t target"
proof -
  obtain found r where s: "sourceFileFrom gen roots t = (found, r)" by (cases "sourceFileFrom gen roots t")
  obtain seeded :: "'tf event list" and u where e: "entitySeeding gen ctx (projr r) = (seeded, u)"
    by (cases "entitySeeding gen ctx (projr r) :: 'tf event list \<times> (error + bool)") auto
  have f: "filter isEditFile found = []"
    using sourceFileFrom_events [OF s] by (simp add: filter_none)
  have g: "filter isEditFile seeded = []"
    using entitySeeding_events [OF e] by (simp add: filter_none)
  show ?thesis
    using assms s e f g
    by (auto simp: renderTemplate_def editEvents_filter split: sum.splits if_splits prod.splits)
qed

lemma planFile_transform:
  assumes "planFile gen ctx m s blk bPath bTo fsp = (pev, Inr (Some t))"
  shows "transform t = Some (m @ s @ transformsOf (blockTransform blk) @ fileTransforms fsp)"
proof (cases fsp)
  case (FileName n)
  with assms show ?thesis
    by (auto simp: planFile_def planFileName_def derivedTransform_def bindE_def transformsOf_def
          fileTransforms_def split: sum.splits transformSpec.splits option.splits)
next
  case (FileObject fo)
  with assms show ?thesis
    by (auto simp: planFile_def planFileObject_def resolveFileObject_def derivedTransform_def
          fileDerivedTransform_def bindE_def transformsOf_def fileTransforms_def
          split: sum.splits transformSpec.splits option.splits if_splits prod.splits)
qed

text \<open>
  Claim C4, as amended. For a file of a block that is planned and rendered, the chain of
  transforms of the template is the method's transforms, then the section's, then the
  block's, then the file's own (a boolean \<open>transform\<close> contributes none); the rendered file
  is edited exactly once with that chain when the template is not binary and the chain is
  not empty, and is not edited at all otherwise.
\<close>

theorem transform_order:
  assumes "planFile gen ctx m s blk bPath bTo fsp = (pev, Inr (Some t))"
    and "renderTemplate gen ctx roots t = (ev, Inr target)"
  shows "transform t = Some (m @ s @ transformsOf (blockTransform blk) @ fileTransforms fsp)
       \<and> filter isEditFile ev =
           (if \<not> isBinary t \<and> m @ s @ transformsOf (blockTransform blk) @ fileTransforms fsp \<noteq> []
            then [EditFile target (m @ s @ transformsOf (blockTransform blk) @ fileTransforms fsp)]
            else [])"
  using planFile_transform [OF assms(1)] renderTemplate_edits [OF assms(2)]
  by (simp add: editEvents_def)

theorem transform_order_witness:
  "transform orderedTemplate = Some [7, 9, 1, 2, 3]
   \<and> filter isEditFile
       [ExistsSync ''blueprint/src/a.txt.ejs'', ExistsSync ''jhipster/src/a.txt.ejs'',
         RenderTemplateAsync ''jhipster/src/a.txt.ejs'' (JStr ''src/a.txt'')
           plainContext [] (RootsArray [''blueprint'', ''jhipster'']),
         EditFile (JStr ''src/a.txt'') [7, 9, 1, 2, 3]]
     = [EditFile (JStr ''src/a.txt'') [7, 9, 1, 2, 3 :: nat]]"
  using transform_order [OF ordered_planFile ordered_renderTemplate]
  by (simp add: orderedBlock_def orderedFile_def exampleBlock_def exampleFile_def
        transformsOf_def fileTransforms_def isBinary_def orderedTemplate_def extname_def basename_def
        binaryExtensions_def)

text \<open>
  The claim as first stated, for every file of a block, fails for a binary file: the
  method's transform is not applied to the copied image (no \<open>EditFile\<close> among the events).
\<close>

theorem transform_order_counterexample:
  "writeFiles (exampleGenerator [''blueprint/src/logo.png''] [])
     (exampleOptions \<lparr> blocks := Value [exampleBlock \<lparr> blockPathValue := JStr ''src'',
                                     blockTemplates := Some [FileName ''logo.png''] \<rparr>],
                       methodTransform := [7] \<rparr>)
   = ([],
      [[ExistsSync ''blueprint/src/logo.png'', ExistsSync ''jhipster/src/logo.png'',
        CopyTemplateAsync ''blueprint/src/logo.png'' (JStr ''src/logo.png'')]],
      Inr [JStr ''src/logo.png''])"
  by (simp add: writeFiles_eval upt_rec)

section \<open>Binary files and the template switch\<close>

text \<open>
  Claim C7. The claim has an explicit \<open>noEjs\<close> or \<open>transform\<close> flag of a file always override
  the default. The method reads the file's \<open>noEjs\<close> first, then overwrites it with the
  negation of a boolean \<open>transform\<close> of the block, and then with the negation of a boolean
  \<open>transform\<close> of the file. The file's boolean \<open>transform\<close> therefore wins over the
  block's, but the file's \<open>noEjs\<close> does not. Under a block with \<open>transform: true\<close>, the
  file \<open>a.txt\<close> with \<open>noEjs: true\<close> is not copied verbatim: it is expanded from
  \<open>a.txt.ejs\<close>, as the default for \<open>a.txt\<close> has it (first equation). Under the same block
  the file with \<open>transform: false\<close> is copied verbatim from \<open>a.txt\<close> (second equation), and
  so is the file with \<open>noEjs: true\<close> under a block without a boolean \<open>transform\<close> (third
  equation).
\<close>

theorem template_mode_file_flag:
  "writeFiles (exampleGenerator [''blueprint/src/a.txt.ejs'', ''blueprint/src/a.txt''] [])
     (exampleOptions \<lparr> blocks := Value [exampleBlock \<lparr> blockPathValue := JStr ''src'',
          blockTransform := TransformBoolean True,
          blockTemplates := Some [FileObject ((exampleFile ''a.txt'') \<lparr> fsNoEjs := Some True \<rparr>)] \<rparr>] \<rparr>)
   = ([],
      [[ExistsSync ''blueprint/src/a.txt.ejs'', ExistsSync ''jhipster/src/a.txt.ejs'',
        RenderTemplateAsync ''blueprint/src/a.txt.ejs'' (JStr ''src/a.txt'')
          plainContext []
          (RootsArray [''blueprint'', ''jhipster''])]],
      Inr [JStr ''src/a.txt''])
   \<and> writeFiles (exampleGenerator [''blueprint/src/a.txt.ejs'', ''blueprint/src/a.txt''] [])
     (exampleOptions \<lparr> blocks := Value [exampleBlock \<lparr> blockPathValue := JStr ''src'',
          blockTransform := TransformBoolean True,
          blockTemplates := Some [FileObject ((exampleFile ''a.txt'')
             \<lparr> fsTransform := TransformBoolean False \<rparr>)] \<rparr>] \<rparr>)
   = ([],
      [[ExistsSync ''blueprint/src/a.txt'', ExistsSync ''jhipster/src/a.txt'',
        CopyTemplateAsync ''blueprint/src/a.txt'' (JStr ''src/a.txt'')]],
      Inr [JStr ''src/a.txt''])
   \<and> writeFiles (exampleGenerator [''blueprint/src/a.txt.ejs'', ''blueprint/src/a.txt''] [])
     (exampleOptions \<lparr> blocks := Value [exampleBlock \<lparr> blockPathValue := JStr ''src'',
          blockTemplates := Some [FileObject ((exampleFile ''a.txt'') \<lparr> fsNoEjs := Some True \<rparr>)] \<rparr>] \<rparr>)
   = ([],
      [[ExistsSync ''blueprint/src/a.txt'', ExistsSync ''jhipster/src/a.txt'',
        CopyTemplateAsync ''blueprint/src/a.txt'' (JStr ''src/a.txt'')]],
      Inr [JStr ''src/a.txt''])"
  by (simp add: writeFiles_eval upt_rec)

section \<open>Skipping an existing destination\<close>

text \<open>
  Claim C6. The claim has a file with \<open>override: false\<close> dropped when its destination
  exists. The method tests the destination path as the planner builds it, and the
  renderer then removes the first \<open>.ejs\<close> from that path when it appends the suffix to
  the source, so the file tested and the file written differ for a path with \<open>.ejs\<close>
  in it. The file \<open>a.ejs.txt\<close> with \<open>override: false\<close> is written to \<open>src/a.txt\<close>, which
  exists: the test is on \<open>src/a.ejs.txt\<close>, the file is kept, and \<open>src/a.txt\<close> is rendered
  over and returned (first equation). For the file \<open>a.txt\<close> the path tested is the path
  written, and the file is dropped with a debug line, nothing is rendered and nothing
  returned (second equation).
\<close>

theorem skip_if_exists_tested_path:
  "writeFiles (exampleGenerator [''jhipster/src/a.ejs.txt.ejs''] [''src/a.txt''])
     (exampleOptions \<lparr> blocks := Value [exampleBlock \<lparr> blockPathValue := JStr ''src'',
          blockTemplates := Some [FileObject ((exampleFile ''a.ejs.txt'') \<lparr> fsOverride := JBool False \<rparr>)] \<rparr>] \<rparr>)
   = ([FsExists ''src/a.ejs.txt''],
      [[ExistsSync ''blueprint/src/a.ejs.txt.ejs'', ExistsSync ''jhipster/src/a.ejs.txt.ejs'',
        RenderTemplateAsync ''jhipster/src/a.ejs.txt.ejs'' (JStr ''src/a.txt'')
          plainContext []
          (RootsArray [''blueprint'', ''jhipster''])]],
      Inr [JStr ''src/a.txt''])
   \<and> writeFiles (exampleGenerator [''jhipster/src/a.txt.ejs''] [''src/a.txt''])
     (exampleOptions \<lparr> blocks := Value [exampleBlock \<lparr> blockPathValue := JStr ''src'',
          blockTemplates := Some [FileObject ((exampleFile ''a.txt'') \<lparr> fsOverride := JBool False \<rparr>)] \<rparr>] \<rparr>)
   = ([FsExists ''src/a.txt'', LoggerDebug ''skipping file src/a.txt''], [], Inr [])"
  by (simp add: writeFiles_eval upt_rec)

section \<open>The name helpers\<close>

lemma orElse_None: "orElse a b = None \<longleftrightarrow> a = None \<and> b = None"
  by (simp add: orElse_def split: option.splits)

lemma matchUnicodeWord_pos: "matchUnicodeWord s = Some n \<Longrightarrow> 0 < n"
  by (auto simp: matchUnicodeWord_def orElse_def matchLowerWord_def matchUpperWord_def
        upperLower_def matchUpperRun_def matchOrd_def matchDigits_def Let_def
        split: option.splits list.splits if_splits)

lemma matchUnicodeWord_alnum:
  assumes "isAlnum c"
  shows "matchUnicodeWord (c # cs) \<noteq> None"
proof -
  consider "isUpper c" | "isLower c" "\<not> isUpper c" | "isDigit c"
    using assms by (auto simp: isAlnum_def)
  then show ?thesis
  proof cases
    case 1
    then have "matchUpperRun (c # cs) \<noteq> None" by (simp add: matchUpperRun_def upperRun_def)
    then show ?thesis by (simp add: matchUnicodeWord_def orElse_None)
  next
    case 2
    then have "upperLower (c # cs) \<noteq> None" by (simp add: upperLower_def lowerRun_def)
    then show ?thesis by (simp add: matchUnicodeWord_def orElse_None)
  next
    case 3
    then have "matchDigits (c # cs) \<noteq> None" by (simp add: matchDigits_def digitRun_def)
    then show ?thesis by (simp add: matchUnicodeWord_def orElse_None)
  qed
qed

lemma unicodeWords_nonempty:
  "(\<forall>w \<in> set (unicodeWords s). w \<noteq> []) \<and> ((\<exists>c \<in> set s. isAlnum c) \<longrightarrow> unicodeWords s \<noteq> [])"
proof (induction s rule: unicodeWords.induct)
  case 1
  then show ?case by simp
next
  case (2 c cs)
  show ?case
  proof (cases "matchUnicodeWord (c # cs)")
    case None
    then have "\<not> isAlnum c" using matchUnicodeWord_alnum by blast
    with 2(1) [OF None] None show ?thesis by simp
  next
    case (Some n)
    then have "0 < n" by (rule matchUnicodeWord_pos)
    then have t: "take n (c # cs) \<noteq> []" by simp
    have eq: "unicodeWords (c # cs) = take n (c # cs) # unicodeWords (drop n (c # cs))"
      using Some by simp
    show ?thesis
      unfolding eq using 2(2) [OF Some] t by simp
  qed
qed

lemma asciiWordsAcc_nonempty:
  "(\<forall>w \<in> set (asciiWordsAcc acc s). w \<noteq> [])
   \<and> (acc \<noteq> [] \<or> (\<exists>c \<in> set s. isAlnum c) \<longrightarrow> asciiWordsAcc acc s \<noteq> [])"
proof (induction acc s rule: asciiWordsAcc.induct)
  case (1 acc)
  then show ?case by simp
next
  case (2 acc c cs)
  consider (a) "isAlnum c" | (b) "\<not> isAlnum c" "acc = []" | (c) "\<not> isAlnum c" "acc \<noteq> []"
    by blast
  then show ?case
  proof cases
    case a
    have "asciiWordsAcc acc (c # cs) = asciiWordsAcc (c # acc) cs" using a by simp
    then show ?thesis using 2(1) [OF a] by simp
  next
    case b
    have "asciiWordsAcc acc (c # cs) = asciiWordsAcc [] cs" using b by simp
    then show ?thesis using 2(2) [OF b] b by simp
  next
    case c
    have "asciiWordsAcc acc (c # cs) = rev acc # asciiWordsAcc [] cs" using c by simp
    then show ?thesis using 2(3) [OF c] c by simp
  qed
qed

lemma words_nonempty:
  "(\<forall>w \<in> set (words s). w \<noteq> []) \<and> ((\<exists>c \<in> set s. isAlnum c) \<longrightarrow> words s \<noteq> [])"
  using unicodeWords_nonempty [of s] asciiWordsAcc_nonempty [of "[]" s]
  by (simp add: words_def asciiWords_def)

lemma camelCaseWords_nonempty:
  "ws \<noteq> [] \<Longrightarrow> \<forall>w \<in> set ws. w \<noteq> [] \<Longrightarrow> camelCaseWords ws \<noteq> []"
  by (cases ws) (simp_all add: toLowerCase_def)

lemma camelCase_nonempty:
  assumes "\<exists>c \<in> set s. isAlnum c \<and> c \<noteq> CHR 0x27"
  shows "camelCase s \<noteq> []"
proof -
  have "\<exists>c \<in> set (filter (\<lambda>c. c \<noteq> CHR 0x27) s). isAlnum c" using assms by auto
  then show ?thesis
    using words_nonempty [of "filter (\<lambda>c. c \<noteq> CHR 0x27) s"]
    by (simp add: camelCase_def camelCaseWords_nonempty)
qed

lemma startsWithDigit_App: "\<not> startsWithDigit ''App''"
  by (simp add: startsWithDigit_def isDigit_def)

lemma startsWithDigit_append: "x \<noteq> [] \<Longrightarrow> startsWithDigit (x @ y) = startsWithDigit x"
  by (cases x) (simp_all add: startsWithDigit_def)

text \<open>
  Claim C10. The front-end application name is the camel-cased base name followed by
  \<open>App\<close> (not added when the base name ends with \<open>App\<close>), replaced by \<open>App\<close> when
  that candidate starts with a digit; it is never empty and never starts with a digit.
\<close>

theorem getFrontendAppName_never_digit:
  "getFrontendAppName bn =
     (if startsWithDigit (camelCase bn @ (if endsWith bn ''App'' then [] else ''App''))
      then ''App''
      else camelCase bn @ (if endsWith bn ''App'' then [] else ''App''))
   \<and> getFrontendAppName bn \<noteq> []
   \<and> \<not> startsWithDigit (getFrontendAppName bn)"
proof -
  have "camelCase bn \<noteq> []" if "endsWith bn ''App''"
  proof (rule camelCase_nonempty)
    from that obtain u where "bn = u @ ''App''" by (auto simp: endsWith_def suffix_def)
    then have "CHR ''p'' \<in> set bn" by simp
    moreover have "isAlnum CHR ''p''" by (simp add: isAlnum_def isLower_def)
    ultimately show "\<exists>c \<in> set bn. isAlnum c \<and> c \<noteq> CHR 0x27" by auto
  qed
  then have ne: "camelCase bn @ (if endsWith bn ''App'' then [] else ''App'') \<noteq> []"
    by simp
  show ?thesis
    using ne startsWithDigit_App
    by (simp add: getFrontendAppName_def Let_def)
qed

lemma of_char_toUpper:
  assumes "isLower c"
  shows "(of_char (toUpperChar c) :: nat) = of_char c - 32"
proof -
  have "(of_char c :: nat) - 32 < 256" using assms unfolding isLower_def by arith
  then show ?thesis using assms by (simp add: toUpperChar_def)
qed

lemma of_char_toLower:
  assumes "isUpper c"
  shows "(of_char (toLowerChar c) :: nat) = of_char c + 32"
proof -
  have "(of_char c :: nat) + 32 < 256" using assms unfolding isUpper_def by arith
  then show ?thesis using assms by (simp add: toLowerChar_def)
qed

lemma isUpper_toUpper: "isLower c \<Longrightarrow> isUpper (toUpperChar c)"
  using of_char_toUpper [of c] unfolding isUpper_def isLower_def by arith

lemma isLower_toLower: "isUpper c \<Longrightarrow> isLower (toLowerChar c)"
  using of_char_toLower [of c] unfolding isUpper_def isLower_def by arith

lemma lower_not_upper: "isLower c \<Longrightarrow> \<not> isUpper c"
  by (simp add: isLower_def isUpper_def)




lemma toUpper_upper: "isUpper c \<Longrightarrow> toUpperChar c = c"
  using lower_not_upper [of c] by (auto simp: toUpperChar_def)

lemma toLower_toUpper: "isLower c \<Longrightarrow> toLowerChar (toUpperChar c) = c"
proof -
  assume l: "isLower c"
  have "32 \<le> (of_char c :: nat)" using l by (simp add: isLower_def)
  then have "(of_char (toLowerChar (toUpperChar c)) :: nat) = of_char c"
    using of_char_toLower [OF isUpper_toUpper [OF l]] of_char_toUpper [OF l] by simp
  then show ?thesis by (metis char_of_char)
qed






















section \<open>The icon-import needle\<close>

lemma getSubstitution_literal:
  "CHR ''$'' \<notin> set t \<Longrightarrow> getSubstitution m b a caps t = t"
  by (induction m b a caps t rule: getSubstitution.induct) auto

lemma replaceNeedles_literal:
  assumes "CHR ''$'' \<notin> set t"
  shows "replaceNeedles t b (c # cs) =
           (case matchNeedle (c # cs) of
              None \<Rightarrow> c # replaceNeedles t (b @ [c]) cs
            | Some (g1, g2, following) \<Rightarrow> t @ replaceNeedles t (b @ g1 @ g2 @ needle) following)"
  by (simp add: getSubstitution_literal [OF assms] split: option.splits)

lemma replaceNeedles_preceding:
  "CHR ''$'' \<notin> set t \<Longrightarrow> replaceNeedles t b s = replaceNeedles t b' s"
proof (induction t b s arbitrary: b' rule: replaceNeedles.induct)
  case (1 replacement preceding)
  then show ?case by simp
next
  case (2 replacement preceding c cs)
  note lit = replaceNeedles_literal [OF "2.prems"] getSubstitution_literal [OF "2.prems"]
  show ?case
  proof (cases "matchNeedle (c # cs)")
    case None
    then show ?thesis
      using "2.IH"(1) [OF None "2.prems", of "b' @ [c]"] by (simp add: lit)
  next
    case (Some m)
    obtain g1 g2 following where m: "m = (g1, g2, following)" by (cases m)
    show ?thesis
      using "2.IH"(2) [OF Some m [symmetric] refl "2.prems", of "b' @ g1 @ g2 @ needle"]
      by (simp add: lit Some m)
  qed
qed

lemma prefix_needle_cut:
  assumes "x \<notin> set needle"
  shows "prefix needle (w @ x # t) \<longleftrightarrow> prefix needle w"
proof
  assume "prefix needle (w @ x # t)"
  then consider "prefix needle w" | us where "needle = w @ us" "prefix us (x # t)"
    by (auto simp: prefix_append)
  then show "prefix needle w"
  proof cases
    case 1
    then show ?thesis .
  next
    case 2
    show ?thesis
    proof (cases us)
      case Nil
      then show ?thesis using 2 by simp
    next
      case (Cons y ys)
      then have "x \<in> set (w @ us)" using 2(2) by (auto simp: prefix_Cons)
      then show ?thesis using assms 2(1) by simp
    qed
  qed
next
  assume "prefix needle w"
  then show "prefix needle (w @ x # t)" by (rule prefix_prefix)
qed

lemma needle_chars:
  "CHR 0x0A \<notin> set needle" "CHR 0x0D \<notin> set needle" "CHR ''$'' \<notin> set needle"
  by (simp_all add: needle_def)

lemma lineBreak_Some:
  "lineBreak s = Some (nl, r) \<Longrightarrow> s = nl @ r \<and> (nl = [CHR 0x0A] \<or> nl = [CHR 0x0D, CHR 0x0A])"
  by (cases s) (auto split: if_splits list.splits)

lemma isSpace_breaks: "isSpace CHR 0x0A" "isSpace CHR 0x0D" "\<not> isSpace CHR ''/''"
  by (simp_all add: isSpace_def)

lemma matchNeedle_Some:
  assumes "matchNeedle s = Some (g1, g2, following)"
  shows "s = g1 @ g2 @ needle @ following"
    and "g1 = [CHR 0x0A] \<or> g1 = [CHR 0x0D, CHR 0x0A]"
    and "list_all isSpace g2"
proof -
  obtain r where lb: "lineBreak s = Some (g1, r)" and p: "prefix needle (dropWhile isSpace r)"
    and g2: "g2 = takeWhile isSpace r" and f: "following = drop (length needle) (dropWhile isSpace r)"
    using assms by (auto simp: matchNeedle_def split: option.splits if_splits)
  have "dropWhile isSpace r = needle @ following"
    using p f by (auto simp: prefix_def)
  then have "r = g2 @ needle @ following"
    using takeWhile_dropWhile_id [of isSpace r] g2 by simp
  then show "s = g1 @ g2 @ needle @ following" using lineBreak_Some [OF lb] by simp
  show "g1 = [CHR 0x0A] \<or> g1 = [CHR 0x0D, CHR 0x0A]" using lineBreak_Some [OF lb] by simp
  show "list_all isSpace g2" unfolding g2 list_all_iff by (auto dest: set_takeWhileD)
qed

lemma prefix_needle_replaceNeedles:
  assumes "CHR ''$'' \<notin> set t" and "t = CHR 0x0A # t'"
  shows "prefix needle (p @ replaceNeedles t b s) \<longleftrightarrow> prefix needle (p @ s)"
  using assms
proof (induction t b s arbitrary: p rule: replaceNeedles.induct)
  case (1 replacement preceding)
  then show ?case by simp
next
  case (2 replacement preceding c cs)
  note lit = replaceNeedles_literal [OF "2.prems"(1)] getSubstitution_literal [OF "2.prems"(1)]
  show ?case
  proof (cases "matchNeedle (c # cs)")
    case None
    then show ?thesis
      using "2.IH"(1) [OF None "2.prems", of "p @ [c]"] by (simp add: lit)
  next
    case (Some m)
    obtain g1 g2 following where m: "m = (g1, g2, following)" by (cases m)
    note ms = matchNeedle_Some [OF Some [unfolded m]]
    obtain x g where g: "g1 = x # g" "x \<notin> set needle"
      using ms(2) needle_chars by auto
    have "prefix needle (p @ c # cs) \<longleftrightarrow> prefix needle p"
      using prefix_needle_cut [OF g(2), of p] ms(1) g(1) by simp
    moreover have "replaceNeedles replacement preceding (c # cs)
        = replacement @ replaceNeedles replacement (preceding @ g1 @ g2 @ needle) following"
      by (simp add: lit Some m)
    then have "\<exists>r. replaceNeedles replacement preceding (c # cs) = CHR 0x0A # r"
      by (simp add: "2.prems"(2))
    then have "prefix needle (p @ replaceNeedles replacement preceding (c # cs)) \<longleftrightarrow> prefix needle p"
      using prefix_needle_cut [OF needle_chars(1), of p] by auto
    ultimately show ?thesis by simp
  qed
qed

lemma countNeedles_skip:
  "CHR ''/'' \<notin> set ws \<Longrightarrow> countNeedles (ws @ s) = countNeedles s"
  by (induction ws) (auto simp: needle_def prefix_Cons)

lemma countNeedles_needle:
  "countNeedles (needle @ s) = Suc (countNeedles s)"
  by (simp add: needle_def)

lemma spaces_no_slash: "list_all isSpace ws \<Longrightarrow> CHR ''/'' \<notin> set ws"
  using isSpace_breaks(3) by (auto simp: list_all_iff)

lemma countNeedles_match:
  assumes "matchNeedle s = Some (g1, g2, following)"
  shows "countNeedles s = Suc (countNeedles following)"
proof -
  note ms = matchNeedle_Some [OF assms]
  have "list_all isSpace (g1 @ g2)" using ms(2,3) isSpace_breaks by auto
  then have "countNeedles ((g1 @ g2) @ needle @ following) = countNeedles (needle @ following)"
    by (intro countNeedles_skip spaces_no_slash)
  then show ?thesis using ms(1) by (simp add: countNeedles_needle)
qed

lemma countNeedles_replaceNeedles:
  assumes "CHR ''$'' \<notin> set t" and "t = CHR 0x0A # u @ needle" and "CHR ''/'' \<notin> set u"
  shows "countNeedles (replaceNeedles t b s) = countNeedles s"
  using assms
proof (induction t b s rule: replaceNeedles.induct)
  case (1 replacement preceding)
  then show ?case by simp
next
  case (2 replacement preceding c cs)
  note lit = replaceNeedles_literal [OF "2.prems"(1)] getSubstitution_literal [OF "2.prems"(1)]
  show ?case
  proof (cases "matchNeedle (c # cs)")
    case None
    have "prefix needle ([c] @ replaceNeedles replacement (preceding @ [c]) cs) \<longleftrightarrow> prefix needle ([c] @ cs)"
      by (rule prefix_needle_replaceNeedles [OF "2.prems"(1)]) (simp add: "2.prems"(2))
    then show ?thesis
      using "2.IH"(1) [OF None "2.prems"] by (simp add: lit None)
  next
    case (Some m)
    obtain g1 g2 following where m: "m = (g1, g2, following)" by (cases m)
    have "countNeedles ((CHR 0x0A # u) @ needle @ r) = countNeedles (needle @ r)" for r
      by (rule countNeedles_skip) (simp add: "2.prems"(3))
    then have "countNeedles (replacement @ r) = Suc (countNeedles r)" for r
      by (simp add: "2.prems"(2) countNeedles_needle)
    then show ?thesis
      using "2.IH"(2) [OF Some m [symmetric] refl "2.prems"] countNeedles_match [OF Some [unfolded m]]
      by (simp add: lit Some m)
  qed
qed

lemma countNeedles_pos: "prefix needle v \<Longrightarrow> 0 < countNeedles (u @ v)"
proof (induction u)
  case Nil
  then show ?case by (cases v) (simp_all add: needle_def)
next
  case (Cons a u)
  then show ?case by simp
qed

lemma matchNeedle_at_break:
  assumes "nl = [CHR 0x0A] \<or> nl = [CHR 0x0D, CHR 0x0A]" and "list_all isSpace ws"
  shows "matchNeedle (nl @ ws @ needle @ post) = Some (nl, ws, post)"
proof -
  have lb: "lineBreak (nl @ ws @ needle @ post) = Some (nl, ws @ needle @ post)"
    using assms(1) by auto
  have n: "needle @ post = CHR ''/'' # tl needle @ post" by (simp add: needle_def)
  have t: "takeWhile isSpace (ws @ needle @ post) = ws"
    using assms(2) isSpace_breaks(3) unfolding n by (simp add: list_all_iff takeWhile_append2)
  have d: "dropWhile isSpace (ws @ needle @ post) = needle @ post"
    using assms(2) isSpace_breaks(3) unfolding n by (simp add: list_all_iff dropWhile_append2)
  show ?thesis
    by (simp add: matchNeedle_def lb t d)
qed

lemma trailingSpace_Cons:
  "set (trailingSpace pre) \<subseteq> set (trailingSpace (a # pre))"
  by (auto simp: trailingSpace_def takeWhile_append dest: set_takeWhileD)

lemma trailingSpace_all: "list_all isSpace p \<Longrightarrow> trailingSpace p = p"
  by (simp add: trailingSpace_def list_all_iff takeWhile_eq_all_conv [THEN iffD2])

lemma trailingSpace_append:
  "list_all isSpace v \<Longrightarrow> set v \<subseteq> set (trailingSpace (u @ v))"
  by (auto simp: trailingSpace_def list_all_iff takeWhile_append)

lemma needle_no_border:
  assumes "us @ needle @ post = needle @ following"
  shows "us = [] \<or> prefix needle us"
proof (cases "length us < length needle")
  case False
  then have "take (length needle) (us @ needle @ post) = take (length needle) us" by simp
  moreover have "take (length needle) (needle @ following) = needle" by simp
  ultimately have "needle = take (length needle) us" using assms by simp
  then show ?thesis by (metis take_is_prefix)
next
  case True
  show ?thesis
  proof (rule ccontr)
    assume n: "\<not> (us = [] \<or> prefix needle us)"
    then have ne: "us \<noteq> []" by simp
    have h: "needle ! 0 = CHR ''/''" "needle ! 1 = CHR ''/''" "needle ! 2 = CHR '' ''"
      "2 < length needle"
      by (simp_all add: needle_def)
    have "(us @ needle @ post) ! length us = (needle @ following) ! length us" using assms by simp
    moreover have "(us @ needle @ post) ! length us = needle ! 0"
      using h(4) by (auto simp: nth_append)
    moreover have "(needle @ following) ! length us = needle ! length us"
      using True by (simp add: nth_append)
    ultimately have a: "needle ! length us = CHR ''/''" using h(1) by simp
    have "CHR ''/'' \<notin> set (drop 2 needle)" by (simp add: needle_def)
    moreover have "needle ! length us \<in> set (drop 2 needle)" if two: "2 \<le> length us"
    proof -
      obtain k where k: "length us = 2 + k" using two by (auto simp: le_iff_add)
      have "drop 2 needle ! k = needle ! (2 + k)"
        using h(4) by (intro nth_drop) simp
      then have e: "needle ! length us = drop 2 needle ! k"
        by (simp add: k)
      have "k < length (drop 2 needle)" using True k by simp
      then show ?thesis unfolding e by (rule nth_mem)
    qed
    ultimately have "\<not> 2 \<le> length us"
      using a by auto
    moreover have "length us \<noteq> 0" using ne by simp
    ultimately have l: "length us = 1" by arith
    have "(us @ needle @ post) ! 2 = (needle @ following) ! 2" using assms by simp
    moreover have "(us @ needle @ post) ! 2 = needle ! 1"
      using l h(4) by (auto simp: nth_append)
    moreover have "(needle @ following) ! 2 = needle ! 2"
      using h(4) by (auto simp: nth_append)
    ultimately show False using h by simp
  qed
qed


lemma lineBreak_other: "c \<noteq> CHR 0x0A \<Longrightarrow> c \<noteq> CHR 0x0D \<Longrightarrow> matchNeedle (c # cs) = None"
  by (simp add: matchNeedle_def)

lemma replaceNeedles_plain:
  assumes t: "CHR ''$'' \<notin> set t"
  shows "CHR 0x0A \<notin> set w \<Longrightarrow> CHR 0x0D \<notin> set w \<Longrightarrow>
         replaceNeedles t b (w @ s) = w @ replaceNeedles t [] s"
proof (induction w arbitrary: b)
  case Nil
  show ?case using replaceNeedles_preceding [OF t, of b s "[]"] by simp
next
  case (Cons c w)
  have "matchNeedle (c # w @ s) = None" using Cons.prems by (intro lineBreak_other) auto
  then show ?case
    using Cons.IH [of "b @ [c]"] Cons.prems
    by (simp add: replaceNeedles_literal [OF t])
qed

lemma replaceNeedles_none:
  assumes t: "CHR ''$'' \<notin> set t"
  shows "countNeedles s = 0 \<Longrightarrow> replaceNeedles t b s = s"
proof (induction s arbitrary: b)
  case Nil
  show ?case by simp
next
  case (Cons c cs)
  have "matchNeedle (c # cs) = None"
  proof (cases "matchNeedle (c # cs)")
    case (Some m)
    obtain g1 g2 following where "m = (g1, g2, following)" by (cases m)
    then show ?thesis using countNeedles_match [of "c # cs" g1 g2 following] Some Cons.prems by simp
  qed simp
  moreover have "countNeedles cs = 0" using Cons.prems by simp
  ultimately show ?case
    using Cons.IH [of "b @ [c]"] by (simp add: replaceNeedles_literal [OF t])
qed

lemma needle_first: "needle = CHR ''/'' # tl needle"
  by (simp add: needle_def)

lemma matchNeedle_suffix:
  assumes m: "matchNeedle (q @ needle @ post) = Some (g1, g2, following)"
    and c: "countNeedles q = 0"
  shows "q = g1 @ g2"
proof -
  note ms = matchNeedle_Some [OF m]
  have sp: "list_all isSpace (g1 @ g2)" using ms(2,3) isSpace_breaks by auto
  have "q @ (needle @ post) = (g1 @ g2) @ (needle @ following)" using ms(1) by simp
  then have "\<exists>us. q = (g1 @ g2) @ us \<and> us @ (needle @ post) = needle @ following
                \<or> q @ us = g1 @ g2 \<and> needle @ post = us @ (needle @ following)"
    by (rule append_eq_append_conv2 [THEN iffD1])
  then consider us where "q = (g1 @ g2) @ us" "us @ needle @ post = needle @ following"
    | us where "q @ us = g1 @ g2" "needle @ post = us @ needle @ following"
    by blast
  then show ?thesis
  proof cases
    case 1
    have "\<not> prefix needle us"
    proof
      assume "prefix needle us"
      then have "0 < countNeedles ((g1 @ g2) @ us)" by (rule countNeedles_pos)
      then show False using c 1(1) by simp
    qed
    then have "us = []" using needle_no_border [OF 1(2)] by simp
    then show ?thesis using 1(1) by simp
  next
    case 2
    have "us = []"
    proof (cases us)
      case (Cons u r)
      then have "u = CHR ''/''" using 2(2) needle_first by (metis append_Cons list.inject)
      moreover have "isSpace u" using 2(1) sp Cons
        by (metis in_set_conv_decomp list_all_iff set_append UnCI)
      ultimately show ?thesis using isSpace_breaks(3) by simp
    qed simp
    then show ?thesis using 2(1) by simp
  qed
qed

lemma matchNeedle_line_feed:
  assumes "matchNeedle s = Some (g1, g2, following)"
  shows "CHR 0x0A \<in> set g1"
  using matchNeedle_Some(2) [OF assms] by auto

lemma matchNeedle_none_before:
  assumes c: "countNeedles q = 0" and n: "CHR 0x0A \<notin> set (trailingSpace q)"
  shows "matchNeedle (q @ needle @ post) = None"
proof (cases "matchNeedle (q @ needle @ post)")
  case (Some m)
  obtain g1 g2 following where m: "m = (g1, g2, following)" by (cases m)
  note s = Some [unfolded m]
  have q: "q = g1 @ g2" by (rule matchNeedle_suffix [OF s c])
  have "list_all isSpace q" using matchNeedle_Some(2,3) [OF s] isSpace_breaks q by auto
  then have "trailingSpace q = q" by (rule trailingSpace_all)
  then show ?thesis using n matchNeedle_line_feed [OF s] q by simp
qed simp

lemma replaceNeedles_unmatched:
  assumes t: "CHR ''$'' \<notin> set t"
  shows "countNeedles p = 0 \<Longrightarrow> CHR 0x0A \<notin> set (trailingSpace p) \<Longrightarrow>
         replaceNeedles t b (p @ needle @ post) = p @ needle @ replaceNeedles t [] post"
proof (induction p arbitrary: b)
  case Nil
  show ?case
    using replaceNeedles_plain [OF t, of needle b post] needle_chars by simp
next
  case (Cons a q)
  have none: "matchNeedle ((a # q) @ needle @ post) = None"
    using Cons.prems by (intro matchNeedle_none_before)
  have c: "countNeedles q = 0" using Cons.prems(1) by simp
  have l: "CHR 0x0A \<notin> set (trailingSpace q)"
    using Cons.prems(2) trailingSpace_Cons [of q a] by auto
  show ?case
    using none Cons.IH [OF c l, of "b @ [a]"]
    by (simp add: replaceNeedles_literal [OF t])
qed

lemma countNeedles_cut:
  "x \<notin> set needle \<Longrightarrow> countNeedles (u @ x # r) = countNeedles u + countNeedles (x # r)"
proof (induction u)
  case Nil
  show ?case by simp
next
  case (Cons a u)
  have "prefix needle ((a # u) @ x # r) \<longleftrightarrow> prefix needle (a # u)"
    by (rule prefix_needle_cut [OF Cons.prems])
  then show ?case using Cons by simp
qed

lemma countNeedles_spaces: "list_all isSpace ws \<Longrightarrow> countNeedles ws = 0"
  using countNeedles_skip [OF spaces_no_slash, of ws "[]"] by simp

lemma lineStart_Cons: "lineStart (a # q) nl \<Longrightarrow> lineStart q nl"
  using trailingSpace_Cons [of q a] by (cases q) (auto simp: lineStart_def)

lemma matchNeedle_before_break:
  assumes nl: "nl = [CHR 0x0A] \<or> nl = [CHR 0x0D, CHR 0x0A]" and ws: "list_all isSpace ws"
    and c: "countNeedles (a # q) = 0" and l: "lineStart (a # q) nl"
  shows "matchNeedle ((a # q) @ nl @ ws @ needle @ post) = None"
proof (cases "matchNeedle ((a # q) @ nl @ ws @ needle @ post)")
  case (Some m)
  obtain g1 g2 following where m: "m = (g1, g2, following)" by (cases m)
  have s: "matchNeedle (((a # q) @ nl @ ws) @ needle @ post) = Some (g1, g2, following)"
    using Some m by simp
  obtain x r where x: "nl @ ws = x # r" "x \<notin> set needle"
    using nl needle_chars by auto
  have sw: "list_all isSpace (nl @ ws)" using nl ws isSpace_breaks by auto
  have "countNeedles ((a # q) @ x # r) = countNeedles (a # q) + countNeedles (x # r)"
    by (rule countNeedles_cut [OF x(2)])
  then have "countNeedles ((a # q) @ nl @ ws) = 0"
    using c countNeedles_spaces [OF sw] x(1) by simp
  then have q: "(a # q) @ nl @ ws = g1 @ g2" by (rule matchNeedle_suffix [OF s])
  have sg: "list_all isSpace (g1 @ g2)"
    using matchNeedle_Some(2,3) [OF s] isSpace_breaks by auto
  have "list_all isSpace ((a # q) @ nl @ ws)" unfolding q by (rule sg)
  then have sp: "list_all isSpace (a # q)" by simp
  then have ts: "trailingSpace (a # q) = a # q" by (rule trailingSpace_all)
  have n: "CHR 0x0A \<notin> set (a # q)" using l ts by (simp add: lineStart_def)
  consider "g1 = [CHR 0x0A]" | "g1 = [CHR 0x0D, CHR 0x0A]"
    using matchNeedle_Some(2) [OF s] by blast
  then show ?thesis
  proof cases
    case 1
    then have "a = CHR 0x0A" using q by simp
    then show ?thesis using n by simp
  next
    case 2
    then have a: "a = CHR 0x0D" and r: "q @ nl @ ws = CHR 0x0A # g2" using q by simp_all
    show ?thesis
    proof (cases q)
      case Nil
      then have "nl = [CHR 0x0A]" using r nl by auto
      then show ?thesis using l a Nil by (simp add: lineStart_def)
    next
      case (Cons b q')
      then have "b = CHR 0x0A" using r by simp
      then show ?thesis using n Cons by simp
    qed
  qed
qed simp

lemma replaceNeedles_first:
  assumes t: "CHR ''$'' \<notin> set t"
    and nl: "nl = [CHR 0x0A] \<or> nl = [CHR 0x0D, CHR 0x0A]" and ws: "list_all isSpace ws"
  shows "countNeedles pre = 0 \<Longrightarrow> lineStart pre nl \<Longrightarrow>
         replaceNeedles t b (pre @ nl @ ws @ needle @ post) = pre @ t @ replaceNeedles t [] post"
proof (induction pre arbitrary: b)
  case Nil
  have "nl @ ws @ needle @ post \<noteq> []" using nl by auto
  then obtain c cs where s: "nl @ ws @ needle @ post = c # cs" by (cases "nl @ ws @ needle @ post") auto
  show ?case
    using matchNeedle_at_break [OF nl ws, of post] replaceNeedles_preceding [OF t, of _ post "[]"]
    unfolding append_Nil s
    by (simp add: replaceNeedles_literal [OF t] getSubstitution_literal [OF t])
next
  case (Cons a pre)
  have none: "matchNeedle ((a # pre) @ nl @ ws @ needle @ post) = None"
    using Cons.prems by (intro matchNeedle_before_break [OF nl ws])
  have c: "countNeedles pre = 0" using Cons.prems(1) by simp
  have l: "lineStart pre nl" by (rule lineStart_Cons [OF Cons.prems(2)])
  show ?case
    using none Cons.IH [OF c l, of "b @ [a]"]
    by (simp add: replaceNeedles_literal [OF t] getSubstitution_literal [OF t])
qed


lemma trailingSpace_body:
  assumes "list_all isSpace w" and "b = [] \<or> \<not> isSpace (last b)"
  shows "trailingSpace (b @ w) = w"
proof -
  have "takeWhile isSpace (rev b) = []"
    using assms(2) by (cases "rev b") (auto simp: last_rev [symmetric] simp del: last_rev)
  moreover have "takeWhile isSpace (rev w @ rev b) = rev w @ takeWhile isSpace (rev b)"
    by (rule takeWhile_append2) (use assms(1) in \<open>simp add: list_all_iff\<close>)
  ultimately show ?thesis by (simp add: trailingSpace_def)
qed

lemma body_trailingSpace:
  obtains b where "p = b @ trailingSpace p" and "b = [] \<or> \<not> isSpace (last b)"
proof
  let ?b = "rev (dropWhile isSpace (rev p))"
  have "rev (takeWhile isSpace (rev p) @ dropWhile isSpace (rev p)) = p"
    by (simp only: takeWhile_dropWhile_id rev_rev_ident)
  then have "?b @ rev (takeWhile isSpace (rev p)) = p" by (simp only: rev_append)
  then show "p = ?b @ trailingSpace p" by (simp only: trailingSpace_def)
  show "?b = [] \<or> \<not> isSpace (last ?b)"
    using hd_dropWhile [of isSpace "rev p"] by (auto simp: last_rev)
qed

lemma trailingSpace_spaces: "list_all isSpace (trailingSpace p)"
  by (auto simp: trailingSpace_def list_all_iff dest: set_takeWhileD)

lemma lineStart_decompose:
  assumes "CHR 0x0A \<in> set (trailingSpace p)"
  shows "\<exists>pre nl ws. p = pre @ nl @ ws \<and> lineStart pre nl \<and> list_all isSpace ws"
proof -
  obtain b where b: "p = b @ trailingSpace p" "b = [] \<or> \<not> isSpace (last b)"
    by (rule body_trailingSpace)
  obtain g0 ws where g: "trailingSpace p = g0 @ CHR 0x0A # ws" "CHR 0x0A \<notin> set g0"
    using split_list_first [OF assms] by blast
  have sp: "list_all isSpace g0" "list_all isSpace ws"
    using trailingSpace_spaces [of p] unfolding g(1) by simp_all
  show ?thesis
  proof (cases "g0 \<noteq> [] \<and> last g0 = CHR 0x0D")
    case True
    then obtain g where g0: "g0 = g @ [CHR 0x0D]" by (metis append_butlast_last_id)
    have "list_all isSpace g" using sp(1) g0 by simp
    then have "trailingSpace (b @ g) = g" using b(2) by (rule trailingSpace_body)
    then have "lineStart (b @ g) [CHR 0x0D, CHR 0x0A]"
      using g(2) g0 by (simp add: lineStart_def)
    moreover have "p = (b @ g) @ [CHR 0x0D, CHR 0x0A] @ ws"
      using b(1) g(1) g0 by simp
    ultimately show ?thesis using sp(2) by blast
  next
    case False
    have t: "trailingSpace (b @ g0) = g0" using sp(1) b(2) by (rule trailingSpace_body)
    have "b @ g0 = [] \<or> last (b @ g0) \<noteq> CHR 0x0D"
    proof (cases "g0 = []")
      case True
      then show ?thesis using b(2) isSpace_breaks(2) by auto
    next
      case False
      then show ?thesis using \<open>\<not> (g0 \<noteq> [] \<and> last g0 = CHR 0x0D)\<close> by simp
    qed
    then have "lineStart (b @ g0) [CHR 0x0A]"
      using g(2) t by (simp add: lineStart_def)
    moreover have "p = (b @ g0) @ [CHR 0x0A] @ ws"
      using b(1) g(1) by simp
    ultimately show ?thesis using sp(2) by blast
  qed
qed


text \<open>The icon import is made of letters and digits, so it has no \<open>$\<close> and no \<open>/\<close>.\<close>

lemma take_run: "n \<le> length (takeWhile P s) \<Longrightarrow> list_all P (take n s)"
proof -
  assume "n \<le> length (takeWhile P s)"
  then have "take n s = take n (takeWhile P s)"
    by (metis takeWhile_dropWhile_id take_append diff_is_0_eq take_0 append_Nil2)
  then show ?thesis
    by (auto simp: list_all_iff dest!: in_set_takeD set_takeWhileD)
qed

lemma alnum_classes:
  "list_all isLower w \<Longrightarrow> list_all isAlnum w"
  "list_all isUpper w \<Longrightarrow> list_all isAlnum w"
  "list_all isDigit w \<Longrightarrow> list_all isAlnum w"
  by (auto simp: list_all_iff isAlnum_def)

lemma upperLower_alnum: "upperLower s = Some n \<Longrightarrow> list_all isAlnum (take n s)"
proof (cases s)
  case Nil
  then show "upperLower s = Some n \<Longrightarrow> ?thesis" by simp
next
  case (Cons c cs)
  assume u: "upperLower s = Some n"
  show ?thesis
  proof (cases "isUpper c")
    case True
    then have n: "n = Suc (lowerRun cs)" using u Cons by (simp add: upperLower_def split: if_splits)
    have "list_all isLower (take (lowerRun cs) cs)" by (rule take_run) (simp add: lowerRun_def)
    then show ?thesis using True by (simp add: Cons n alnum_classes isAlnum_def)
  next
    case False
    then have n: "n = lowerRun s" using u Cons by (simp add: upperLower_def split: if_splits)
    have "list_all isLower (take (lowerRun s) s)" by (rule take_run) (simp add: lowerRun_def)
    then show ?thesis by (simp add: n alnum_classes)
  qed
qed

lemma ordSuffix_letters:
  assumes "ordSuffix upper t"
  shows "list_all isAlnum (take 2 (drop 1 t))"
proof -
  have d: "take 2 (drop 1 t) = drop 1 (take 3 t)" by (simp add: drop_take)
  consider "take 3 t \<in> {''1ST'', ''2ND'', ''3RD'', ''1st'', ''2nd'', ''3rd''}"
    | "take 2 (drop 1 t) \<in> {''TH'', ''th''}"
    using assms by (auto simp: ordSuffix_def Let_def split: if_splits)
  then show ?thesis
  proof cases
    case 1
    then have "drop 1 (take 3 t) \<in> {''ST'', ''ND'', ''RD'', ''st'', ''nd'', ''rd''}" by auto
    then show ?thesis unfolding d by (auto simp: isAlnum_def isUpper_def isLower_def)
  next
    case 2
    then show ?thesis by (auto simp: isAlnum_def isUpper_def isLower_def)
  qed
qed

lemma matchOrd_alnum: "matchOrd upper s = Some n \<Longrightarrow> list_all isAlnum (take n s)"
proof -
  assume m: "matchOrd upper s = Some n"
  let ?d = "digitRun s"
  have d: "0 < ?d" and o: "ordSuffix upper (drop (?d - 1) s)" and n: "n = ?d + 2"
    using m by (auto simp: matchOrd_def Let_def split: if_splits list.splits)
  have "drop 1 (drop (?d - 1) s) = drop ?d s" using d by simp
  then have l: "list_all isAlnum (take 2 (drop ?d s))" using ordSuffix_letters [OF o] by simp
  have "list_all isDigit (take ?d s)" by (rule take_run) (simp add: digitRun_def)
  then have "list_all isAlnum (take ?d s @ take 2 (drop ?d s))" using l by (simp add: alnum_classes)
  then show ?thesis unfolding n take_add .
qed

lemma matchUnicodeWord_alnum_word:
  assumes "matchUnicodeWord s = Some n"
  shows "list_all isAlnum (take n s)"
proof -
  consider "upperLower s = Some n" | "n \<le> upperRun s" | "matchOrd True s = Some n"
    | "matchOrd False s = Some n" | "n \<le> digitRun s"
    using assms
    by (auto simp: matchUnicodeWord_def orElse_def matchLowerWord_def matchUpperWord_def
          matchUpperRun_def matchDigits_def Let_def split: option.splits list.splits if_splits)
  then show ?thesis
  proof cases
    case 1
    then show ?thesis by (rule upperLower_alnum)
  next
    case 2
    then have "list_all isUpper (take n s)" by (intro take_run) (simp add: upperRun_def)
    then show ?thesis by (rule alnum_classes)
  next
    case 3
    then show ?thesis by (rule matchOrd_alnum)
  next
    case 4
    then show ?thesis by (rule matchOrd_alnum)
  next
    case 5
    then have "list_all isDigit (take n s)" by (intro take_run) (simp add: digitRun_def)
    then show ?thesis by (rule alnum_classes)
  qed
qed

lemma unicodeWords_alnum: "\<forall>w \<in> set (unicodeWords s). list_all isAlnum w"
proof (induction s rule: unicodeWords.induct)
  case 1
  then show ?case by simp
next
  case (2 c cs)
  show ?case
  proof (cases "matchUnicodeWord (c # cs)")
    case None
    with 2(1) [OF None] show ?thesis by simp
  next
    case (Some n)
    have eq: "unicodeWords (c # cs) = take n (c # cs) # unicodeWords (drop n (c # cs))"
      using Some by simp
    show ?thesis
      unfolding eq using 2(2) [OF Some] matchUnicodeWord_alnum_word [OF Some] by simp
  qed
qed

lemma asciiWordsAcc_alnum_words:
  "list_all isAlnum acc \<Longrightarrow> \<forall>w \<in> set (asciiWordsAcc acc s). list_all isAlnum w"
proof (induction acc s rule: asciiWordsAcc.induct)
  case (1 acc)
  then show ?case by simp
next
  case (2 acc c cs)
  consider (a) "isAlnum c" | (b) "\<not> isAlnum c" "acc = []" | (c) "\<not> isAlnum c" "acc \<noteq> []"
    by blast
  then show ?case
  proof cases
    case a
    have "asciiWordsAcc acc (c # cs) = asciiWordsAcc (c # acc) cs" using a by simp
    then show ?thesis using 2(1) [OF a] a "2.prems" by simp
  next
    case b
    have "asciiWordsAcc acc (c # cs) = asciiWordsAcc [] cs" using b by simp
    then show ?thesis using 2(2) [OF b] by simp
  next
    case c
    have "asciiWordsAcc acc (c # cs) = rev acc # asciiWordsAcc [] cs" using c by simp
    then show ?thesis using 2(3) [OF c] "2.prems" by simp
  qed
qed

lemma words_alnum: "\<forall>w \<in> set (words s). list_all isAlnum w"
  using unicodeWords_alnum [of s] asciiWordsAcc_alnum_words [of "[]" s]
  by (simp add: words_def asciiWords_def)

lemma toLowerChar_alnum: "isAlnum c \<Longrightarrow> isAlnum (toLowerChar c)"
  using isLower_toLower [of c] by (auto simp: isAlnum_def toLowerChar_def)

lemma toUpperChar_alnum: "isAlnum c \<Longrightarrow> isAlnum (toUpperChar c)"
  using isUpper_toUpper [of c] by (auto simp: isAlnum_def toUpperChar_def)

lemma upperFirst_alnum: "list_all isAlnum s \<Longrightarrow> list_all isAlnum (upperFirst s)"
  by (cases s) (simp_all add: toUpperChar_alnum)

lemma toLowerCase_alnum: "list_all isAlnum s \<Longrightarrow> list_all isAlnum (toLowerCase s)"
  by (simp add: toLowerCase_def list_all_iff toLowerChar_alnum)

lemma camelCaseWords_alnum:
  assumes "\<forall>w \<in> set ws. list_all isAlnum w"
  shows "list_all isAlnum (camelCaseWords ws)"
proof (cases ws)
  case Nil
  then show ?thesis by simp
next
  case (Cons w r)
  have "list_all isAlnum (capitalize (toLowerCase v))" if "v \<in> set r" for v
    using assms that Cons by (simp add: capitalize_def upperFirst_alnum toLowerCase_alnum)
  then have "list_all isAlnum (concat (map (\<lambda>v. capitalize (toLowerCase v)) r))"
    by (auto simp: list_all_iff)
  then show ?thesis using assms Cons by (simp add: toLowerCase_alnum)
qed

lemma upperFirstCamelCase_alnum: "list_all isAlnum (upperFirstCamelCase s)"
  unfolding upperFirstCamelCase_def camelCase_def
  by (intro upperFirst_alnum camelCaseWords_alnum words_alnum)

lemma iconImport_chars:
  "CHR ''$'' \<notin> set (iconImport iconName)" "CHR ''/'' \<notin> set (iconImport iconName)"
proof -
  have "list_all isAlnum (iconImport iconName)"
    using upperFirstCamelCase_alnum [of iconName]
    by (simp add: iconImport_def isAlnum_def isLower_def)
  moreover have "\<not> isAlnum CHR ''$''" "\<not> isAlnum CHR ''/''"
    by (simp_all add: isAlnum_def isUpper_def isLower_def isDigit_def)
  ultimately show "CHR ''$'' \<notin> set (iconImport iconName)" "CHR ''/'' \<notin> set (iconImport iconName)"
    by (auto simp: list_all_iff)
qed

text \<open>
  Claim C3, as amended. For every icon name and every indentation prefix without \<open>$\<close>
  and \<open>/\<close>: the output has as many occurrences of the sentinel as the content, so no
  marker is consumed, and a content without a sentinel is left as it is. For the first
  sentinel of a content (the text \<open>p\<close> before it has none) there are two cases, and the
  rest of the content is rewritten in the same way, so the two cases describe every
  occurrence. When the whitespace that ends \<open>p\<close> has a line feed, \<open>p\<close> is a text \<open>pre\<close>,
  the first line break \<open>nl\<close> of that whitespace and the whitespace \<open>ws\<close> after it; then
  \<open>pre\<close> is kept, and the line break and the whitespace before the sentinel are replaced
  by a line feed, the given indentation prefix, the icon import and a comma, then a
  line feed, the given prefix and the sentinel. Otherwise the sentinel does not follow
  a line break and whitespace, and it is left as it is with the text before it. The
  prefix is the one passed to the callback, the same for every occurrence.
\<close>

theorem addIcon_needles:
  assumes "CHR ''$'' \<notin> set indentPrefix" and "CHR ''/'' \<notin> set indentPrefix"
  shows "countNeedles (addIconContent (iconImport iconName) indentPrefix content) = countNeedles content
       \<and> (countNeedles content = 0 \<longrightarrow>
            addIconContent (iconImport iconName) indentPrefix content = content)
       \<and> (countNeedles pre = 0 \<and> lineStart pre nl \<and> list_all isSpace ws \<longrightarrow>
            addIconContent (iconImport iconName) indentPrefix (pre @ nl @ ws @ needle @ post)
              = pre @ [CHR 0x0A] @ indentPrefix @ iconImport iconName @ '','' @ [CHR 0x0A]
                @ indentPrefix @ needle
                @ addIconContent (iconImport iconName) indentPrefix post)
       \<and> (countNeedles p = 0 \<and> CHR 0x0A \<notin> set (trailingSpace p) \<longrightarrow>
            addIconContent (iconImport iconName) indentPrefix (p @ needle @ post)
              = p @ needle @ addIconContent (iconImport iconName) indentPrefix post)
       \<and> (CHR 0x0A \<in> set (trailingSpace p) \<longrightarrow>
            (\<exists>pre nl ws. p = pre @ nl @ ws \<and> lineStart pre nl \<and> list_all isSpace ws))"
proof -
  let ?icon = "iconImport iconName"
  let ?t = "iconImportLine indentPrefix ?icon"
  have d: "CHR ''$'' \<notin> set ?t"
    using assms(1) needle_chars(3) iconImport_chars(1) [of iconName] by (simp add: iconImportLine_def)
  have f: "?t = CHR 0x0A # (indentPrefix @ ?icon @ '','' @ [CHR 0x0A] @ indentPrefix) @ needle"
    by (simp add: iconImportLine_def)
  have s: "CHR ''/'' \<notin> set (indentPrefix @ ?icon @ '','' @ [CHR 0x0A] @ indentPrefix)"
    using assms(2) iconImport_chars(2) [of iconName] by simp
  have 1: "countNeedles (addIconContent ?icon indentPrefix content) = countNeedles content"
    unfolding addIconContent_def by (rule countNeedles_replaceNeedles [OF d f s])
  have 2: "addIconContent ?icon indentPrefix content = content" if "countNeedles content = 0"
    unfolding addIconContent_def by (rule replaceNeedles_none [OF d that])
  have 3: "addIconContent ?icon indentPrefix (pre @ nl @ ws @ needle @ post)
            = pre @ [CHR 0x0A] @ indentPrefix @ ?icon @ '','' @ [CHR 0x0A] @ indentPrefix @ needle
              @ addIconContent ?icon indentPrefix post"
    if h: "countNeedles pre = 0 \<and> lineStart pre nl \<and> list_all isSpace ws"
  proof -
    have nl: "nl = [CHR 0x0A] \<or> nl = [CHR 0x0D, CHR 0x0A]"
      using h by (auto simp: lineStart_def)
    show ?thesis
      unfolding addIconContent_def
      using replaceNeedles_first [OF d nl, of ws pre "[]" post] h
      by (simp add: iconImportLine_def)
  qed
  have 4: "addIconContent ?icon indentPrefix (p @ needle @ post)
            = p @ needle @ addIconContent ?icon indentPrefix post"
    if "countNeedles p = 0 \<and> CHR 0x0A \<notin> set (trailingSpace p)"
    unfolding addIconContent_def
    using replaceNeedles_unmatched [OF d, of p "[]" post] that by simp
  have 5: "\<exists>pre nl ws. p = pre @ nl @ ws \<and> lineStart pre nl \<and> list_all isSpace ws"
    if "CHR 0x0A \<in> set (trailingSpace p)"
    using that by (rule lineStart_decompose)
  show ?thesis using 1 2 3 4 5 by blast
qed

lemma iconImport_example: "iconImport ''user-graduate'' = ''faUserGraduate''"
  by code_simp

theorem addIcon_needles_witness:
  "addIconContent (iconImport ''user-graduate'') ''  ''
     ''[\<newline>  // jhipster-needle-add-icon-import\<newline>x // jhipster-needle-add-icon-import\<newline>]''
   = ''[\<newline>  faUserGraduate,\<newline>  // jhipster-needle-add-icon-import\<newline>x // jhipster-needle-add-icon-import\<newline>]''
   \<and> countNeedles (addIconContent (iconImport ''user-graduate'') ''  ''
     ''[\<newline>  // jhipster-needle-add-icon-import\<newline>x // jhipster-needle-add-icon-import\<newline>]'') = 2"
proof -
  let ?i = "iconImport ''user-graduate''"
  let ?content = "''[\<newline>  // jhipster-needle-add-icon-import\<newline>x // jhipster-needle-add-icon-import\<newline>]''"
  have h: "CHR ''$'' \<notin> set ''  ''" "CHR ''/'' \<notin> set ''  ''" by simp_all
  note inst = addIcon_needles [OF h, of "''user-graduate''"]
  have k: "?content = ''['' @ [CHR 0x0A] @ ''  '' @ needle @ ''\<newline>x '' @ needle @ ''\<newline>]''"
    by (simp add: needle_def)
  have ha: "countNeedles ''\<newline>]'' = 0" by code_simp
  have hb: "countNeedles ''\<newline>x '' = 0 \<and> CHR 0x0A \<notin> set (trailingSpace ''\<newline>x '')"
    by code_simp
  have hc: "countNeedles ''['' = 0 \<and> lineStart ''['' [CHR 0x0A] \<and> list_all isSpace ''  ''"
    by code_simp
  have a: "addIconContent ?i ''  '' ''\<newline>]'' = ''\<newline>]''"
    using inst [of "''\<newline>]''", THEN conjunct2, THEN conjunct1, THEN mp, OF ha] .
  have b: "addIconContent ?i ''  '' (''\<newline>x '' @ needle @ ''\<newline>]'')
             = ''\<newline>x '' @ needle @ addIconContent ?i ''  '' ''\<newline>]''"
    using inst [where p = "''\<newline>x ''" and post = "''\<newline>]''",
            THEN conjunct2, THEN conjunct2, THEN conjunct2, THEN conjunct1, THEN mp, OF hb] .
  have c: "addIconContent ?i ''  '' (''['' @ [CHR 0x0A] @ ''  '' @ needle @ ''\<newline>x '' @ needle @ ''\<newline>]'')
           = ''['' @ [CHR 0x0A] @ ''  '' @ ?i @ '','' @ [CHR 0x0A] @ ''  '' @ needle
             @ addIconContent ?i ''  '' (''\<newline>x '' @ needle @ ''\<newline>]'')"
    using inst [where pre = "''[''" and nl = "[CHR 0x0A]" and ws = "''  ''"
              and post = "''\<newline>x '' @ needle @ ''\<newline>]''",
            THEN conjunct2, THEN conjunct2, THEN conjunct1, THEN mp, OF hc] .
  have r: "addIconContent ?i ''  '' ?content
     = ''[\<newline>  faUserGraduate,\<newline>  // jhipster-needle-add-icon-import\<newline>x // jhipster-needle-add-icon-import\<newline>]''"
    unfolding k c b a by (simp add: iconImport_example needle_def)
  have n: "countNeedles ?content = 2"
    by code_simp
  have "countNeedles (addIconContent ?i ''  '' ?content) = countNeedles ?content"
    by (rule inst [of ?content, THEN conjunct1])
  then have "countNeedles (addIconContent ?i ''  '' ?content) = 2"
    by (simp only: n)
  then show ?thesis using r by (intro conjI)
qed

theorem addIcon_needles_counterexample:
  "addIconContent (iconImport ''b'') ''  ''
     ''[\<newline>  // jhipster-needle-add-icon-import\<newline>    // jhipster-needle-add-icon-import\<newline>]''
   = ''[\<newline>  faB,\<newline>  // jhipster-needle-add-icon-import\<newline>  faB,\<newline>  // jhipster-needle-add-icon-import\<newline>]''
   \<and> addIconContent (iconImport ''b'') ''  ''
     ''[\<newline>  // jhipster-needle-add-icon-import\<newline>    // jhipster-needle-add-icon-import\<newline>]''
   \<noteq> ''[\<newline>  faB,\<newline>  // jhipster-needle-add-icon-import\<newline>    faB,\<newline>    // jhipster-needle-add-icon-import\<newline>]''"
  by code_simp

end
